theory Spec2Isabelle
  imports Complex_Main "HOL-Library.Log_Nat" "HOL-Library.Monad_Syntax"
begin

section \<open>JavaScript numbers\<close>

text \<open>
  A JavaScript number is an IEEE-754 double. A finite one is a rational, and every
  arithmetic operator returns the exact result rounded to the nearest double, ties to
  the even significand. \<open>round_double\<close> is that rounding for a significand of 53 bits
  and an unbounded exponent: it is the rounding of the language wherever the exact
  result has a magnitude between \<open>2^-1022\<close> and \<open>2^1024\<close>, which holds for every
  quotient, product and difference of integers below \<open>2^53\<close> taken in this file.
  An integer of magnitude up to \<open>2^53\<close> is a number as it stands.
\<close>

type_synonym number = rat

definition pow2 :: "int \<Rightarrow> rat" where
  "pow2 e = (if 0 \<le> e then 2 ^ nat e else 1 / 2 ^ nat (- e))"

definition ilog2 :: "rat \<Rightarrow> int" where
  \<comment> \<open>for \<open>0 < x\<close>: the exponent \<open>k\<close> with \<open>2^k \<le> x < 2^(k+1)\<close>\<close>
  "ilog2 x = (if 1 \<le> x then bitlen \<lfloor>x\<rfloor> - 1 else - bitlen (\<lceil>1 / x\<rceil> - 1))"

definition round_half_even :: "rat \<Rightarrow> int" where
  "round_half_even m =
     (let f = \<lfloor>m\<rfloor>; d = m - of_int f
      in if d < 1 / 2 then f else if 1 / 2 < d then f + 1 else if even f then f else f + 1)"

definition round_double :: "rat \<Rightarrow> number" where
  "round_double x =
     (if x = 0 then 0
      else let e = ilog2 \<bar>x\<bar> - 52;
               n = round_half_even (\<bar>x\<bar> / pow2 e)
           in sgn x * of_int n * pow2 e)"

text \<open>
  \<open>a / b\<close> of the language is \<open>\<plusminus>Infinity\<close> or \<open>NaN\<close> when \<open>b\<close> is zero; these are
  not numbers of the model, and \<open>js_div\<close> answers \<open>None\<close> there.
\<close>

definition js_div :: "number \<Rightarrow> number \<Rightarrow> number option" where
  "js_div a b = (if b = 0 then None else Some (round_double (a / b)))"

definition js_mul :: "number \<Rightarrow> number \<Rightarrow> number" where
  "js_mul a b = round_double (a * b)"

definition js_sub :: "number \<Rightarrow> number \<Rightarrow> number" where
  "js_sub a b = round_double (a - b)"

text \<open>
  A template literal prints an integer of magnitude below \<open>2^53\<close> in decimal, with a
  minus sign when it is negative. Above that the digits it prints are those of the
  shortest decimal that reads back as the number, and from \<open>10^21\<close> on it prints an
  exponent; these are not strings of the model, and \<open>numberToString\<close> answers \<open>None\<close>
  there.
\<close>

fun digits :: "nat \<Rightarrow> string" where
  "digits n = (if n < 10 then [''0123456789'' ! n]
               else digits (n div 10) @ [''0123456789'' ! (n mod 10)])"

declare digits.simps [simp del]

definition decimal :: "int \<Rightarrow> string" where
  "decimal i = (if i < 0 then CHR ''-'' # digits (nat (- i)) else digits (nat i))"

definition numberToString :: "int \<Rightarrow> string option" where
  "numberToString i = (if \<bar>i\<bar> < 2 ^ 53 then Some (decimal i) else None)"

text \<open>What a string of decimal digits stands for, to read the digits back.\<close>

definition decimal_value :: "string \<Rightarrow> nat" where
  "decimal_value cs = foldl (\<lambda>v c. 10 * v + (of_char c - 48)) 0 cs"

section \<open>JavaScript strings\<close>

text \<open>
  A file name is a list of characters. \<open>includes_str\<close> (the method \<open>includes\<close>),
  \<open>lastIndexOf\<close> and \<open>substring\<close> are the string methods of the language, with
  \<open>-1\<close> for a character that does not occur and with the clamping and swapping of
  \<open>substring\<close>.
\<close>

definition includes_str :: "string \<Rightarrow> char \<Rightarrow> bool" where
  "includes_str s c = (c \<in> set s)"

fun lastIndexOf_from :: "char \<Rightarrow> string \<Rightarrow> nat \<Rightarrow> int \<Rightarrow> int" where
  "lastIndexOf_from c [] i found = found"
| "lastIndexOf_from c (x # xs) i found =
     lastIndexOf_from c xs (Suc i) (if x = c then int i else found)"

definition lastIndexOf :: "string \<Rightarrow> char \<Rightarrow> int" where
  "lastIndexOf s c = lastIndexOf_from c s 0 (- 1)"

definition substring :: "string \<Rightarrow> int \<Rightarrow> int \<Rightarrow> string" where
  "substring s indexStart indexEnd =
     (let len = int (length s);
          a = max 0 (min indexStart len);
          b = max 0 (min indexEnd len);
          lo = min a b;
          hi = max a b
      in take (nat (hi - lo)) (drop (nat lo) s))"

text \<open>
  The test \<open>/\.(jpg|jpeg|png|webp|gif|bmp)$/i\<close> of line 184. Without the \<open>u\<close> flag the
  \<open>i\<close> flag compares the upper-case forms of two characters, and a character outside
  ASCII never takes the form of an ASCII letter; \<open>$\<close> is the end of the input.
\<close>

definition canonicalize :: "char \<Rightarrow> char" where
  "canonicalize c =
     (case map_of (zip ''abcdefghijklmnopqrstuvwxyz'' ''ABCDEFGHIJKLMNOPQRSTUVWXYZ'') c of
        Some u \<Rightarrow> u
      | None \<Rightarrow> c)"

definition ends_with_ci :: "string \<Rightarrow> string \<Rightarrow> bool" where
  "ends_with_ci s p =
     (length p \<le> length s \<and>
      map canonicalize (drop (length s - length p) s) = map canonicalize p)"

definition extensions :: "string list" where
  "extensions = [''jpg'', ''jpeg'', ''png'', ''webp'', ''gif'', ''bmp'']"

definition isImage :: "string \<Rightarrow> bool" where
  "isImage fileName = list_ex (\<lambda>ext. ends_with_ci fileName (CHR ''.'' # ext)) extensions"

text \<open>Lines 202 to 205: the name of the output file.\<close>

definition baseName :: "string \<Rightarrow> string" where
  "baseName fileName =
     (if includes_str fileName (CHR ''.'')
      then substring fileName 0 (lastIndexOf fileName (CHR ''.''))
      else fileName)"

definition newFileName :: "string \<Rightarrow> int \<Rightarrow> int \<Rightarrow> string option" where
  "newFileName fileName targetWidth targetHeight =
     do {
       w \<leftarrow> numberToString targetWidth;
       h \<leftarrow> numberToString targetHeight;
       Some (baseName fileName @ ''_'' @ w @ ''x'' @ h @ ''.jpg'')
     }"

text \<open>
  The reading of the specification, to compare with: the last extension segment of a
  name is what follows its last dot, and the name without it is what precedes that dot.
\<close>

definition lower :: "char \<Rightarrow> char" where
  "lower c =
     (case map_of (zip ''ABCDEFGHIJKLMNOPQRSTUVWXYZ'' ''abcdefghijklmnopqrstuvwxyz'') c of
        Some l \<Rightarrow> l
      | None \<Rightarrow> c)"

fun spec_split_last_dot :: "string \<Rightarrow> (string \<times> string) option" where
  "spec_split_last_dot [] = None"
| "spec_split_last_dot (c # cs) =
     (case spec_split_last_dot cs of
        Some (stem, ext) \<Rightarrow> Some (c # stem, ext)
      | None \<Rightarrow> if c = CHR ''.'' then Some ([], cs) else None)"

definition spec_is_image :: "string \<Rightarrow> bool" where
  "spec_is_image fileName =
     (case spec_split_last_dot fileName of
        None \<Rightarrow> False
      | Some (stem, ext) \<Rightarrow> map lower ext \<in> set extensions)"

definition spec_basename :: "string \<Rightarrow> string" where
  "spec_basename fileName =
     (case spec_split_last_dot fileName of None \<Rightarrow> fileName | Some (stem, ext) \<Rightarrow> stem)"

section \<open>The image transform: \<open>processImageWithPixel\<close>, lines 8 to 70\<close>

type_synonym recordId = string
type_synonym fieldId = string
type_synonym url = string

text \<open>
  Exceptions are values. Each message of the source is a constructor; an exception of the
  host (the table SDK, \<open>fetch\<close>, \<open>response.blob\<close>) is an error object with its message.
\<close>

datatype js_error =
    CanvasContextError   \<comment> \<open>line 18: no 2d context\<close>
  | CanvasToBlobError    \<comment> \<open>line 58: the canvas could not be converted\<close>
  | ImageLoadError       \<comment> \<open>line 65: the image could not be loaded\<close>
  | DownloadError string \<comment> \<open>line 194: download failed, with the status text\<close>
  | NoRecordsError       \<comment> \<open>line 143: the table has no record\<close>
  | HostError string     \<comment> \<open>thrown by the host, with its message\<close>

text \<open>A decoded image: \<open>img.width\<close> and \<open>img.height\<close> are its natural size in pixels.\<close>

record image =
  naturalWidth :: nat
  naturalHeight :: nat

record rect =
  sourceX :: number
  sourceY :: number
  sourceWidth :: number
  sourceHeight :: number

text \<open>
  Lines 26 to 45. The result is \<open>None\<close> when one of the divisions that are executed
  divides by zero: the source goes on with \<open>Infinity\<close> or \<open>NaN\<close> there.
\<close>

definition sourceRect :: "nat \<Rightarrow> nat \<Rightarrow> int \<Rightarrow> int \<Rightarrow> rect option" where
  "sourceRect imgWidth imgHeight targetWidth targetHeight =
     do {
       targetRatio \<leftarrow> js_div (of_int targetWidth) (of_int targetHeight);
       currentRatio \<leftarrow> js_div (of_nat imgWidth) (of_nat imgHeight);
       if currentRatio > targetRatio then
         do {
           let sourceHeight = of_nat imgHeight;
           let sourceWidth = js_mul (of_nat imgHeight) targetRatio;
           sourceX \<leftarrow> js_div (js_sub (of_nat imgWidth) sourceWidth) 2;
           let sourceY = 0;
           Some \<lparr>sourceX = sourceX, sourceY = sourceY,
                  sourceWidth = sourceWidth, sourceHeight = sourceHeight\<rparr>
         }
       else
         do {
           let sourceWidth = of_nat imgWidth;
           sourceHeight \<leftarrow> js_div (of_nat imgWidth) targetRatio;
           let sourceX = 0;
           sourceY \<leftarrow> js_div (js_sub (of_nat imgHeight) sourceHeight) 2;
           Some \<lparr>sourceX = sourceX, sourceY = sourceY,
                  sourceWidth = sourceWidth, sourceHeight = sourceHeight\<rparr>
         }
     }"

text \<open>
  The canvas is a record of its size, its fill style and what was painted on it, in
  order. \<open>createElement_canvas\<close> is a canvas as the document makes it. Its width and
  height are attributes of the type unsigned long: an integer assigned to one of them
  is taken modulo \<open>2^32\<close>, and a result above \<open>2^31 - 1\<close> is replaced by the default
  of the attribute, 300 for the width and 150 for the height. Assigning a size clears
  the canvas.
\<close>

datatype paint =
    FillRect string number number number number
  | DrawImage image "rect option" number number number number

record canvas =
  width :: int
  height :: int
  fillStyle :: string
  painted :: "paint list"

definition createElement_canvas :: canvas where
  "createElement_canvas = \<lparr>width = 300, height = 150, fillStyle = ''#000000'', painted = []\<rparr>"

definition unsigned_long_attribute :: "int \<Rightarrow> int \<Rightarrow> int" where
  "unsigned_long_attribute fallback v =
     (let u = v mod 2 ^ 32 in if u \<le> 2147483647 then u else fallback)"

definition set_width :: "int \<Rightarrow> canvas \<Rightarrow> canvas" where
  "set_width w c =
     c\<lparr>width := unsigned_long_attribute 300 w, fillStyle := ''#000000'', painted := []\<rparr>"

definition set_height :: "int \<Rightarrow> canvas \<Rightarrow> canvas" where
  "set_height h c =
     c\<lparr>height := unsigned_long_attribute 150 h, fillStyle := ''#000000'', painted := []\<rparr>"

definition fillRect :: "number \<Rightarrow> number \<Rightarrow> number \<Rightarrow> number \<Rightarrow> canvas \<Rightarrow> canvas" where
  "fillRect x y w h c = c\<lparr>painted := painted c @ [FillRect (fillStyle c) x y w h]\<rparr>"

definition drawImage ::
  "image \<Rightarrow> rect option \<Rightarrow> number \<Rightarrow> number \<Rightarrow> number \<Rightarrow> number \<Rightarrow> canvas \<Rightarrow> canvas" where
  "drawImage img src dx dy dw dh c = c\<lparr>painted := painted c @ [DrawImage img src dx dy dw dh]\<rparr>"

text \<open>
  A blob is the bytes of a download or what \<open>canvas.toBlob\<close> made of a canvas, with the
  type and the quality asked for. The quality is the number that the literal \<open>0.9\<close>
  stands for, the double nearest to nine tenths.
\<close>

datatype blob =
    Bytes "nat list"
  | CanvasBlob canvas string number

text \<open>
  What the browser answers to the transform: whether the bytes decode to an image
  (\<open>onload\<close>, with its size) or not (\<open>onerror\<close>), whether a 2d context is given, and
  whether \<open>toBlob\<close> hands a blob to its callback or null.
\<close>

record browser =
  decode :: "blob \<Rightarrow> image option"
  getContext :: bool
  toBlob_null :: "canvas \<Rightarrow> bool"

definition processImageWithPixel :: "browser \<Rightarrow> blob \<Rightarrow> int \<Rightarrow> int \<Rightarrow> js_error + blob" where
  "processImageWithPixel br blob targetWidth targetHeight =
     (case decode br blob of
        None \<Rightarrow> Inl ImageLoadError
      | Some img \<Rightarrow>
          if \<not> getContext br then Inl CanvasContextError
          else
            let canvas0 = set_height targetHeight (set_width targetWidth createElement_canvas);
                src = sourceRect (naturalWidth img) (naturalHeight img) targetWidth targetHeight;
                canvas1 = fillRect 0 0 (of_int targetWidth) (of_int targetHeight)
                            (canvas0\<lparr>fillStyle := ''#FFFFFF''\<rparr>);
                canvas2 = drawImage img src 0 0 (of_int targetWidth) (of_int targetHeight) canvas1
            in if toBlob_null br canvas2 then Inl CanvasToBlobError
               else Inr (CanvasBlob canvas2 ''image/jpeg'' (round_double (9 / 10))))"

section \<open>The run: \<open>handleConvert\<close>, lines 127 to 245\<close>

record attachment =
  name :: string
  token :: string

record response =
  ok :: bool
  statusText :: string
  body :: "js_error + blob"  \<comment> \<open>what \<open>response.blob()\<close> gives\<close>

text \<open>
  A file has its parts, its name and its type. The name is \<open>None\<close> when it holds a number
  that \<open>numberToString\<close> does not print.
\<close>

datatype js_file = File "blob list" "string option" string

fun file_name :: "js_file \<Rightarrow> string option" where
  "file_name (File parts n t) = n"

text \<open>
  What the host answers to each call of the run; \<open>Inl\<close> is a call that throws.
  \<open>getValue\<close> gives \<open>None\<close> for a cell that holds no array.
\<close>

record host =
  getActiveTable :: "js_error + unit"
  getRecordIdList :: "js_error + recordId list"
  getField :: "fieldId \<Rightarrow> js_error + unit"
  getValue :: "fieldId \<Rightarrow> recordId \<Rightarrow> js_error + attachment list option"
  getCellAttachmentUrls :: "string list \<Rightarrow> fieldId \<Rightarrow> recordId \<Rightarrow> js_error + url list"
  fetch :: "url \<Rightarrow> js_error + response"
  setValue :: "fieldId \<Rightarrow> recordId \<Rightarrow> js_file list \<Rightarrow> js_error + bool"
  browser_of :: browser

text \<open>
  The messages of the log and of the status line are templates of the source, one
  constructor each, with the values they print.
\<close>

datatype log_msg =
    Log_NoAttachment nat              \<comment> \<open>line 164: row, no attachment found\<close>
  | Log_Processing nat nat            \<comment> \<open>line 169: row, number of attachments\<close>
  | Log_SkipNonImage string           \<comment> \<open>line 187: file name, not an image\<close>
  | Log_Downloading string            \<comment> \<open>line 192\<close>
  | Log_Adjusting string              \<comment> \<open>line 198\<close>
  | Log_Done "string option"          \<comment> \<open>line 208: new file name\<close>
  | Log_AttachmentFailed string js_error  \<comment> \<open>line 210: attachment name, message\<close>
  | Log_Uploading nat                 \<comment> \<open>line 216: number of files\<close>
  | Log_RowSuccess nat                \<comment> \<open>line 219\<close>
  | Log_SetFailed nat                 \<comment> \<open>line 222: row, the SDK returned false\<close>
  | Log_NoValidImage nat              \<comment> \<open>line 226\<close>
  | Log_RowFailed nat js_error        \<comment> \<open>line 232: row, message\<close>

datatype log_type = info | success | error

datatype status =
    Status_SelectFields               \<comment> \<open>line 129: select the two fields first\<close>
  | Status_Initializing               \<comment> \<open>line 134\<close>
  | Status_Done nat nat nat           \<comment> \<open>line 237: done, with the three counts\<close>
  | Status_Failed js_error            \<comment> \<open>line 240: failed, with the message\<close>
  | Status_FailedUnknown              \<comment> \<open>line 240: failed, the message is empty\<close>

text \<open>
  Everything the run does to the outside, in the order it does it: the updates of the
  state of the component and the calls to the host.
\<close>

datatype effect =
    SetStatusMsg status
  | SetIsConverting bool
  | SetLogs_empty
  | SetProgress nat nat
  | AddLog log_msg log_type
  | ConsoleError js_error
  | Call_getActiveTable
  | Call_getRecordIdList
  | Call_getField fieldId
  | Call_getValue fieldId recordId
  | Call_getCellAttachmentUrls "string list" fieldId recordId
  | Call_fetch url
  | Call_processImageWithPixel blob int int
  | Call_setValue fieldId recordId "js_file list"

record run_state =
  trace :: "effect list"
  successCount :: nat
  skipCount :: nat
  failCount :: nat

definition emit :: "effect \<Rightarrow> run_state \<Rightarrow> run_state" where
  "emit e s = s\<lparr>trace := trace s @ [e]\<rparr>"

definition addLog :: "log_msg \<Rightarrow> log_type \<Rightarrow> run_state \<Rightarrow> run_state" where
  "addLog msg type s = emit (AddLog msg type) s"

text \<open>Line 183: \<open>attachment.name || 'image.jpg'\<close>.\<close>

definition fileName_of :: "attachment \<Rightarrow> string" where
  "fileName_of attachment = (if name attachment = [] then ''image.jpg'' else name attachment)"

text \<open>Line 179: \<open>urls[j]\<close>, which is \<open>undefined\<close> past the end and is fetched as such.\<close>

definition url_at :: "url list \<Rightarrow> nat \<Rightarrow> url" where
  "url_at urls j = (if j < length urls then urls ! j else ''undefined'')"

text \<open>Lines 193 to 195.\<close>

definition download :: "host \<Rightarrow> url \<Rightarrow> js_error + blob" where
  "download h url =
     (case fetch h url of
        Inl e \<Rightarrow> Inl e
      | Inr response \<Rightarrow>
          if \<not> ok response then Inl (DownloadError (statusText response))
          else body response)"

text \<open>
  Lines 178 to 211, one attachment: the state and the files made so far go in and come
  out. The \<open>catch\<close> of line 209 takes every exception of the \<open>try\<close>.
\<close>

definition process_attachment ::
  "host \<Rightarrow> int \<Rightarrow> int \<Rightarrow> attachment \<Rightarrow> url \<Rightarrow> run_state \<times> js_file list \<Rightarrow> run_state \<times> js_file list" where
  "process_attachment h targetWidth targetHeight attachment url acc =
     (let s = fst acc; processedFiles = snd acc; fileName = fileName_of attachment
      in if \<not> isImage fileName then (addLog (Log_SkipNonImage fileName) info s, processedFiles)
         else
           let s1 = emit (Call_fetch url) (addLog (Log_Downloading fileName) info s)
           in case download h url of
                Inl err \<Rightarrow> (addLog (Log_AttachmentFailed (name attachment) err) error s1, processedFiles)
              | Inr blob \<Rightarrow>
                  let s2 = emit (Call_processImageWithPixel blob targetWidth targetHeight)
                             (addLog (Log_Adjusting fileName) info s1)
                  in case processImageWithPixel (browser_of h) blob targetWidth targetHeight of
                       Inl err \<Rightarrow>
                         (addLog (Log_AttachmentFailed (name attachment) err) error s2, processedFiles)
                     | Inr blob' \<Rightarrow>
                         let new = newFileName fileName targetWidth targetHeight
                         in (addLog (Log_Done new) success s2,
                             processedFiles @ [File [blob'] new ''image/jpeg'']))"

text \<open>Lines 177 to 212: the loop over \<open>j\<close>.\<close>

fun attachments_loop ::
  "host \<Rightarrow> int \<Rightarrow> int \<Rightarrow> url list \<Rightarrow> nat \<Rightarrow> attachment list \<Rightarrow> run_state \<times> js_file list
     \<Rightarrow> run_state \<times> js_file list" where
  "attachments_loop h targetWidth targetHeight urls j [] acc = acc"
| "attachments_loop h targetWidth targetHeight urls j (attachment # rest) acc =
     attachments_loop h targetWidth targetHeight urls (Suc j) rest
       (process_attachment h targetWidth targetHeight attachment (url_at urls j) acc)"

text \<open>Lines 230 to 234: the \<open>catch\<close> at the boundary of a record.\<close>

definition record_failed :: "nat \<Rightarrow> js_error \<Rightarrow> run_state \<Rightarrow> run_state" where
  "record_failed i recordError s =
     (let s1 = addLog (Log_RowFailed (i + 1) recordError) error (emit (ConsoleError recordError) s)
      in s1\<lparr>failCount := failCount s1 + 1\<rparr>)"

text \<open>Lines 164 to 166: the cell holds no attachment.\<close>

definition no_attachment :: "nat \<Rightarrow> run_state \<Rightarrow> run_state" where
  "no_attachment i s =
     (let s1 = addLog (Log_NoAttachment (i + 1)) info s
      in s1\<lparr>skipCount := skipCount s1 + 1\<rparr>)"

text \<open>Lines 214 to 228: the files of the record are written, or there is none.\<close>

definition submit :: "host \<Rightarrow> fieldId \<Rightarrow> nat \<Rightarrow> recordId \<Rightarrow> run_state \<times> js_file list \<Rightarrow> run_state" where
  "submit h targetFieldId i recordId looped =
     (let s4 = fst looped; processedFiles = snd looped
      in if length processedFiles > 0 then
           let s5 = emit (Call_setValue targetFieldId recordId processedFiles)
                      (addLog (Log_Uploading (length processedFiles)) info s4)
           in case setValue h targetFieldId recordId processedFiles of
                Inl recordError \<Rightarrow> record_failed i recordError s5
              | Inr res \<Rightarrow>
                  if res then
                    let s6 = addLog (Log_RowSuccess (i + 1)) success s5
                    in s6\<lparr>successCount := successCount s6 + 1\<rparr>
                  else
                    let s6 = addLog (Log_SetFailed (i + 1)) error s5
                    in s6\<lparr>failCount := failCount s6 + 1\<rparr>
         else
           let s5 = addLog (Log_NoValidImage (i + 1)) info s4
           in s5\<lparr>skipCount := skipCount s5 + 1\<rparr>)"

text \<open>Lines 156 to 234: one turn of the loop over the records.\<close>

definition process_record ::
  "host \<Rightarrow> fieldId \<Rightarrow> fieldId \<Rightarrow> int \<Rightarrow> int \<Rightarrow> nat \<Rightarrow> nat \<Rightarrow> recordId \<Rightarrow> run_state \<Rightarrow> run_state" where
  "process_record h sourceFieldId targetFieldId targetWidth targetHeight total_records i recordId s0 =
     (let s1 = emit (Call_getValue sourceFieldId recordId)
                 (emit (SetProgress (i + 1) total_records) s0)
      in case getValue h sourceFieldId recordId of
           Inl recordError \<Rightarrow> record_failed i recordError s1
         | Inr None \<Rightarrow> no_attachment i s1
         | Inr (Some attachmentList) \<Rightarrow>
             if length attachmentList = 0 then no_attachment i s1
             else
               let s2 = addLog (Log_Processing (i + 1) (length attachmentList)) info s1;
                   tokens = map token attachmentList;
                   s3 = emit (Call_getCellAttachmentUrls tokens sourceFieldId recordId) s2
               in case getCellAttachmentUrls h tokens sourceFieldId recordId of
                    Inl recordError \<Rightarrow> record_failed i recordError s3
                  | Inr urls \<Rightarrow>
                      submit h targetFieldId i recordId
                        (attachments_loop h targetWidth targetHeight urls 0 attachmentList
                           (s3, [])))"

text \<open>Lines 155 to 235: the loop over \<open>i\<close>.\<close>

fun records_loop ::
  "host \<Rightarrow> fieldId \<Rightarrow> fieldId \<Rightarrow> int \<Rightarrow> int \<Rightarrow> nat \<Rightarrow> nat \<Rightarrow> recordId list \<Rightarrow> run_state
     \<Rightarrow> run_state" where
  "records_loop h sourceFieldId targetFieldId targetWidth targetHeight total_records i [] s = s"
| "records_loop h sourceFieldId targetFieldId targetWidth targetHeight total_records i (recordId # rest) s =
     records_loop h sourceFieldId targetFieldId targetWidth targetHeight total_records (Suc i) rest
       (process_record h sourceFieldId targetFieldId targetWidth targetHeight total_records i recordId s)"

text \<open>
  The state of the component that the run reads and writes (lines 75 to 87).
\<close>

record app =
  isConverting :: bool
  statusMsg :: "status option"
  progress :: "nat \<times> nat"  \<comment> \<open>current, total\<close>
  logs :: "(log_msg \<times> log_type) list"
  selectedSourceFieldId :: fieldId
  selectedTargetFieldId :: fieldId
  targetWidth :: int
  targetHeight :: int

text \<open>Lines 238 to 240: the \<open>catch\<close> of the run; \<open>error.message || unknown\<close>.\<close>

definition message_empty :: "js_error \<Rightarrow> bool" where
  "message_empty e = (case e of HostError m \<Rightarrow> m = [] | _ \<Rightarrow> False)"

definition run_failed :: "js_error \<Rightarrow> run_state \<Rightarrow> run_state" where
  "run_failed e s =
     emit (SetStatusMsg (if message_empty e then Status_FailedUnknown else Status_Failed e))
       (emit (ConsoleError e) s)"

text \<open>Lines 138 to 237: the body of the \<open>try\<close> of the run.\<close>

definition run_body :: "host \<Rightarrow> app \<Rightarrow> run_state \<Rightarrow> (js_error + unit) \<times> run_state" where
  "run_body h a s0 =
     (let s1 = emit Call_getActiveTable s0
      in case getActiveTable h of
           Inl e \<Rightarrow> (Inl e, s1)
         | Inr table \<Rightarrow>
             let s2 = emit Call_getRecordIdList s1
             in case getRecordIdList h of
                  Inl e \<Rightarrow> (Inl e, s2)
                | Inr recordIds \<Rightarrow>
                    let total = length recordIds
                    in if total = 0 then (Inl NoRecordsError, s2)
                       else
                         let s3 = emit (Call_getField (selectedSourceFieldId a))
                                    (emit (SetProgress 0 total) s2)
                         in case getField h (selectedSourceFieldId a) of
                              Inl e \<Rightarrow> (Inl e, s3)
                            | Inr sourceField \<Rightarrow>
                                let s4 = emit (Call_getField (selectedTargetFieldId a)) s3
                                in case getField h (selectedTargetFieldId a) of
                                     Inl e \<Rightarrow> (Inl e, s4)
                                   | Inr targetField \<Rightarrow>
                                       let s5 = records_loop h (selectedSourceFieldId a)
                                                  (selectedTargetFieldId a) (targetWidth a)
                                                  (targetHeight a) total 0 recordIds
                                                  (s4\<lparr>successCount := 0, skipCount := 0,
                                                       failCount := 0\<rparr>)
                                       in (Inr (),
                                           emit (SetStatusMsg (Status_Done (successCount s5)
                                                   (skipCount s5) (failCount s5))) s5))"

definition start_state :: run_state where
  "start_state = \<lparr>trace = [], successCount = 0, skipCount = 0, failCount = 0\<rparr>"

definition handleConvert :: "host \<Rightarrow> app \<Rightarrow> run_state" where
  "handleConvert h a =
     (if selectedSourceFieldId a = [] \<or> selectedTargetFieldId a = [] then
        emit (SetStatusMsg Status_SelectFields) start_state
      else
        let s0 = emit SetLogs_empty
                   (emit (SetStatusMsg Status_Initializing)
                      (emit (SetIsConverting True) start_state));
            tried = run_body h a s0;
            s1 = (case fst tried of Inl e \<Rightarrow> run_failed e (snd tried) | Inr u \<Rightarrow> snd tried)
        in emit (SetProgress 0 0) (emit (SetIsConverting False) s1))"

section \<open>The component: the state, the inputs and the button\<close>

text \<open>What an effect of the run does to the state; line 124 keeps the newest 50 lines.\<close>

fun apply_effect :: "app \<Rightarrow> effect \<Rightarrow> app" where
  "apply_effect a (SetStatusMsg m) = a\<lparr>statusMsg := Some m\<rparr>"
| "apply_effect a (SetIsConverting b) = a\<lparr>isConverting := b\<rparr>"
| "apply_effect a SetLogs_empty = a\<lparr>logs := []\<rparr>"
| "apply_effect a (SetProgress c t) = a\<lparr>progress := (c, t)\<rparr>"
| "apply_effect a (AddLog msg type) = a\<lparr>logs := take 50 ((msg, type) # logs a)\<rparr>"
| "apply_effect a e = a"

definition app_after :: "app \<Rightarrow> effect list \<Rightarrow> app" where
  "app_after a es = foldl apply_effect a es"

definition initial_app :: app where
  "initial_app =
     \<lparr>isConverting = False, statusMsg = None, progress = (0, 0), logs = [],
      selectedSourceFieldId = [], selectedTargetFieldId = [],
      targetWidth = 800, targetHeight = 800\<rparr>"

text \<open>
  Lines 303 and 311: \<open>Number(e.target.value) || 1\<close>. What \<open>Number\<close> gives is \<open>None\<close> for
  \<open>NaN\<close> and an integer otherwise; zero and \<open>NaN\<close> are falsy.
\<close>

definition Number_or_1 :: "int option \<Rightarrow> int" where
  "Number_or_1 v = (case v of None \<Rightarrow> 1 | Some n \<Rightarrow> if n = 0 then 1 else n)"

datatype ui_event =
    ChangeTargetWidth "int option"
  | ChangeTargetHeight "int option"
  | SelectSourceField fieldId
  | SelectTargetField fieldId
  | ClickConvert host

fun ui_step :: "app \<Rightarrow> ui_event \<Rightarrow> app" where
  "ui_step a (ChangeTargetWidth v) = a\<lparr>targetWidth := Number_or_1 v\<rparr>"
| "ui_step a (ChangeTargetHeight v) = a\<lparr>targetHeight := Number_or_1 v\<rparr>"
| "ui_step a (SelectSourceField f) = a\<lparr>selectedSourceFieldId := f\<rparr>"
| "ui_step a (SelectTargetField f) = a\<lparr>selectedTargetFieldId := f\<rparr>"
| "ui_step a (ClickConvert h) = app_after a (trace (handleConvert h a))"

definition app_of_events :: "ui_event list \<Rightarrow> app" where
  "app_of_events evs = foldl ui_step initial_app evs"

text \<open>What a trace shows of the progress, of the transform and of the reads.\<close>

fun progress_updates :: "effect list \<Rightarrow> (nat \<times> nat) list" where
  "progress_updates [] = []"
| "progress_updates (SetProgress c t # es) = (c, t) # progress_updates es"
| "progress_updates (e # es) = progress_updates es"

fun transform_calls :: "effect list \<Rightarrow> (int \<times> int) list" where
  "transform_calls [] = []"
| "transform_calls (Call_processImageWithPixel b w h # es) = (w, h) # transform_calls es"
| "transform_calls (e # es) = transform_calls es"

fun records_read :: "effect list \<Rightarrow> recordId list" where
  "records_read [] = []"
| "records_read (Call_getValue f r # es) = r # records_read es"
| "records_read (e # es) = records_read es"

fun files_submitted :: "effect list \<Rightarrow> (fieldId \<times> recordId \<times> js_file list) list" where
  "files_submitted [] = []"
| "files_submitted (Call_setValue f r fs # es) = (f, r, fs) # files_submitted es"
| "files_submitted (e # es) = files_submitted es"

fun status_updates :: "effect list \<Rightarrow> status list" where
  "status_updates [] = []"
| "status_updates (SetStatusMsg m # es) = m # status_updates es"
| "status_updates (e # es) = status_updates es"

text \<open>
  The outcome of a record is which of the three counters its turn of the loop has
  raised by one, the other two being as they were.
\<close>

datatype outcome = outcome_success | outcome_skipped | outcome_failed

definition outcome_between :: "run_state \<Rightarrow> run_state \<Rightarrow> outcome option" where
  "outcome_between s s' =
     (if successCount s' = successCount s + 1 \<and> skipCount s' = skipCount s
           \<and> failCount s' = failCount s
      then Some outcome_success
      else if successCount s' = successCount s \<and> skipCount s' = skipCount s + 1
                \<and> failCount s' = failCount s
      then Some outcome_skipped
      else if successCount s' = successCount s \<and> skipCount s' = skipCount s
                \<and> failCount s' = failCount s + 1
      then Some outcome_failed
      else None)"

text \<open>Lines 138 to 153: the state when the loop over the records begins.\<close>

definition loop_start :: "app \<Rightarrow> nat \<Rightarrow> run_state \<Rightarrow> run_state" where
  "loop_start a n s0 =
     (emit (Call_getField (selectedTargetFieldId a))
        (emit (Call_getField (selectedSourceFieldId a))
           (emit (SetProgress 0 n)
              (emit Call_getRecordIdList (emit Call_getActiveTable s0)))))
       \<lparr>successCount := 0, skipCount := 0, failCount := 0\<rparr>"

text \<open>
  What one attachment adds to the files of its record, and the files of a record, read
  off the source: an attachment that is no image, that fails to download or that fails
  in the transform adds nothing, and every other one adds its file, in the order of
  the attachments.
\<close>

definition produced :: "host \<Rightarrow> int \<Rightarrow> int \<Rightarrow> attachment \<Rightarrow> url \<Rightarrow> js_file option" where
  "produced h W H a u =
     (if \<not> isImage (fileName_of a) then None
      else case download h u of
             Inl e \<Rightarrow> None
           | Inr b \<Rightarrow>
               (case processImageWithPixel (browser_of h) b W H of
                  Inl e \<Rightarrow> None
                | Inr b' \<Rightarrow> Some (File [b'] (newFileName (fileName_of a) W H) ''image/jpeg'')))"

fun produced_files :: "host \<Rightarrow> int \<Rightarrow> int \<Rightarrow> url list \<Rightarrow> nat \<Rightarrow> attachment list \<Rightarrow> js_file list" where
  "produced_files h W H urls j [] = []"
| "produced_files h W H urls j (a # rest) =
     (case produced h W H a (url_at urls j) of None \<Rightarrow> [] | Some f \<Rightarrow> [f])
       @ produced_files h W H urls (Suc j) rest"

text \<open>Lines 133 to 135: the state when the \<open>try\<close> of the run begins.\<close>

definition run_start :: run_state where
  "run_start =
     emit SetLogs_empty
       (emit (SetStatusMsg Status_Initializing) (emit (SetIsConverting True) start_state))"

section \<open>Runs to try the model on\<close>

text \<open>
  Three records: the first holds one JPEG of 200 by 100 pixels, the second holds
  nothing, and reading the third throws. The target is 100 by 100.
\<close>

definition example_browser :: browser where
  "example_browser =
     \<lparr>decode = (\<lambda>b. Some \<lparr>naturalWidth = 200, naturalHeight = 100\<rparr>),
      getContext = True,
      toBlob_null = (\<lambda>c. False)\<rparr>"

definition example_host :: host where
  "example_host =
     \<lparr>getActiveTable = Inr (),
      getRecordIdList = Inr [''r1'', ''r2'', ''r3''],
      getField = (\<lambda>f. Inr ()),
      getValue = (\<lambda>f r. if r = ''r1'' then Inr (Some [\<lparr>name = ''a.jpg'', token = ''t1''\<rparr>])
                        else if r = ''r2'' then Inr (Some [])
                        else Inl (HostError ''boom'')),
      getCellAttachmentUrls = (\<lambda>ts f r. Inr (map (\<lambda>t. ''u/'' @ t) ts)),
      fetch = (\<lambda>u. Inr \<lparr>ok = True, statusText = ''OK'', body = Inr (Bytes [])\<rparr>),
      setValue = (\<lambda>f r fs. Inr True),
      browser_of = example_browser\<rparr>"

definition example_app :: app where
  "example_app =
     app_of_events [SelectSourceField ''src'', SelectTargetField ''dst'',
       ChangeTargetWidth (Some 100), ChangeTargetHeight (Some 100)]"

text \<open>The same host with a destination that acknowledges no write.\<close>

definition rejecting_host :: host where
  "rejecting_host = example_host\<lparr>setValue := (\<lambda>f r fs. Inr False)\<rparr>"

text \<open>
  One record with two images: the download of the first is answered 404, the second
  comes through.
\<close>

definition two_image_host :: host where
  "two_image_host =
     example_host
       \<lparr>getRecordIdList := Inr [''r1''],
        getValue := (\<lambda>f r. Inr (Some [\<lparr>name = ''a.jpg'', token = ''t1''\<rparr>,
                                       \<lparr>name = ''b.png'', token = ''t2''\<rparr>])),
        fetch := (\<lambda>u. if u = ''u/t1''
                      then Inr \<lparr>ok = False, statusText = ''Not Found'', body = Inr (Bytes [])\<rparr>
                      else Inr \<lparr>ok = True, statusText = ''OK'', body = Inr (Bytes [1])\<rparr>)\<rparr>"

text \<open>The same host when it throws on the addresses of the attachments, or on the write.\<close>

definition urls_failing_host :: host where
  "urls_failing_host =
     example_host\<lparr>getCellAttachmentUrls := (\<lambda>ts f r. Inl (HostError ''no urls''))\<rparr>"

definition write_failing_host :: host where
  "write_failing_host = example_host\<lparr>setValue := (\<lambda>f r fs. Inl (HostError ''denied''))\<rparr>"

text \<open>The same host when the fields that are selected are not of the active table.\<close>

definition stale_field_host :: host where
  "stale_field_host = example_host\<lparr>getField := (\<lambda>f. Inl (HostError ''field not found''))\<rparr>"

text \<open>One record whose only attachment has no name.\<close>

definition nameless_host :: host where
  "nameless_host =
     example_host
       \<lparr>getRecordIdList := Inr [''r1''],
        getValue := (\<lambda>f r. Inr (Some [\<lparr>name = [], token = ''t1''\<rparr>]))\<rparr>"

section \<open>The state and the trace through the run\<close>

lemma emit_simps [simp]:
  "trace (emit e s) = trace s @ [e]"
  "successCount (emit e s) = successCount s"
  "skipCount (emit e s) = skipCount s"
  "failCount (emit e s) = failCount s"
  by (simp_all add: emit_def)

lemma addLog_simps [simp]:
  "trace (addLog m t s) = trace s @ [AddLog m t]"
  "successCount (addLog m t s) = successCount s"
  "skipCount (addLog m t s) = skipCount s"
  "failCount (addLog m t s) = failCount s"
  by (simp_all add: addLog_def)

lemma process_attachment_counts:
  "successCount (fst (process_attachment h W H a u acc)) = successCount (fst acc)"
  "skipCount (fst (process_attachment h W H a u acc)) = skipCount (fst acc)"
  "failCount (fst (process_attachment h W H a u acc)) = failCount (fst acc)"
  by (simp_all add: process_attachment_def Let_def split: sum.splits)

lemma attachments_loop_counts:
  "successCount (fst (attachments_loop h W H urls j as acc)) = successCount (fst acc)"
  "skipCount (fst (attachments_loop h W H urls j as acc)) = skipCount (fst acc)"
  "failCount (fst (attachments_loop h W H urls j as acc)) = failCount (fst acc)"
  by (induction as arbitrary: j acc) (simp_all add: process_attachment_counts)

lemma record_failed_simps [simp]:
  "trace (record_failed i e s) = trace s @ [ConsoleError e, AddLog (Log_RowFailed (i + 1) e) error]"
  "successCount (record_failed i e s) = successCount s"
  "skipCount (record_failed i e s) = skipCount s"
  "failCount (record_failed i e s) = failCount s + 1"
  by (simp_all add: record_failed_def Let_def)

lemma no_attachment_simps [simp]:
  "trace (no_attachment i s) = trace s @ [AddLog (Log_NoAttachment (i + 1)) info]"
  "successCount (no_attachment i s) = successCount s"
  "skipCount (no_attachment i s) = skipCount s + 1"
  "failCount (no_attachment i s) = failCount s"
  by (simp_all add: no_attachment_def Let_def)

lemma submit_outcome:
  "outcome_between (fst acc) (submit h tgt i r acc) =
     (if snd acc = [] then Some outcome_skipped
      else case setValue h tgt r (snd acc) of
             Inl e \<Rightarrow> Some outcome_failed
           | Inr res \<Rightarrow> if res then Some outcome_success else Some outcome_failed)"
  by (simp add: submit_def outcome_between_def Let_def split: sum.splits)

lemma outcome_between_shift:
  "successCount s1 = successCount s0 \<Longrightarrow> skipCount s1 = skipCount s0 \<Longrightarrow> failCount s1 = failCount s0
   \<Longrightarrow> outcome_between s0 s' = outcome_between s1 s'"
  by (simp add: outcome_between_def)

lemma process_record_outcome:
  "outcome_between s0 (process_record h src tgt W H n i r s0) =
     (case getValue h src r of
        Inl e \<Rightarrow> Some outcome_failed
      | Inr None \<Rightarrow> Some outcome_skipped
      | Inr (Some al) \<Rightarrow>
          if al = [] then Some outcome_skipped
          else (case getCellAttachmentUrls h (map token al) src r of
                 Inl e \<Rightarrow> Some outcome_failed
               | Inr urls \<Rightarrow>
                   (let files = snd (attachments_loop h W H urls 0 al
                       (emit (Call_getCellAttachmentUrls (map token al) src r)
                         (addLog (Log_Processing (i + 1) (length al)) info
                           (emit (Call_getValue src r) (emit (SetProgress (i + 1) n) s0))), []))
                   in if files = [] then Some outcome_skipped
                      else (case setValue h tgt r files of
                             Inl e \<Rightarrow> Some outcome_failed
                           | Inr res \<Rightarrow> if res then Some outcome_success else Some outcome_failed))))"
proof (cases "getValue h src r")
  case (Inl e)
  then show ?thesis by (simp add: process_record_def outcome_between_def)
next
  case (Inr cell)
  show ?thesis
  proof (cases cell)
    case None
    with Inr show ?thesis by (simp add: process_record_def outcome_between_def)
  next
    case (Some al)
    show ?thesis
    proof (cases "al = []")
      case True
      with Inr Some show ?thesis by (simp add: process_record_def outcome_between_def)
    next
      case False
      show ?thesis
      proof (cases "getCellAttachmentUrls h (map token al) src r")
        case (Inl e)
        with Inr Some False show ?thesis by (simp add: process_record_def outcome_between_def)
      next
        case urls: (Inr urls)
        define acc where "acc = attachments_loop h W H urls 0 al
                       (emit (Call_getCellAttachmentUrls (map token al) src r)
                         (addLog (Log_Processing (i + 1) (length al)) info
                           (emit (Call_getValue src r) (emit (SetProgress (i + 1) n) s0))), [])"
        have pr: "process_record h src tgt W H n i r s0 = submit h tgt i r acc"
          using Inr Some False urls by (simp add: process_record_def acc_def)
        have "outcome_between s0 (submit h tgt i r acc) = outcome_between (fst acc) (submit h tgt i r acc)"
          by (rule outcome_between_shift) (simp_all add: acc_def attachments_loop_counts)
        then show ?thesis
          using Inr Some False urls
          by (simp add: pr submit_outcome Let_def acc_def)
      qed
    qed
  qed
qed


lemma progress_updates_append [simp]:
  "progress_updates (xs @ ys) = progress_updates xs @ progress_updates ys"
  by (induction xs rule: progress_updates.induct) simp_all

lemma transform_calls_append [simp]:
  "transform_calls (xs @ ys) = transform_calls xs @ transform_calls ys"
  by (induction xs rule: transform_calls.induct) simp_all

lemma records_read_append [simp]:
  "records_read (xs @ ys) = records_read xs @ records_read ys"
  by (induction xs rule: records_read.induct) simp_all

lemma files_submitted_append [simp]:
  "files_submitted (xs @ ys) = files_submitted xs @ files_submitted ys"
  by (induction xs rule: files_submitted.induct) simp_all

lemma process_attachment_quiet:
  "progress_updates (trace (fst (process_attachment h W H a u acc))) = progress_updates (trace (fst acc))"
  "records_read (trace (fst (process_attachment h W H a u acc))) = records_read (trace (fst acc))"
  "files_submitted (trace (fst (process_attachment h W H a u acc))) = files_submitted (trace (fst acc))"
  by (simp_all add: process_attachment_def Let_def split: sum.splits)

lemma attachments_loop_quiet:
  "progress_updates (trace (fst (attachments_loop h W H urls j as acc))) = progress_updates (trace (fst acc))"
  "records_read (trace (fst (attachments_loop h W H urls j as acc))) = records_read (trace (fst acc))"
  "files_submitted (trace (fst (attachments_loop h W H urls j as acc))) = files_submitted (trace (fst acc))"
  by (induction as arbitrary: j acc) (simp_all add: process_attachment_quiet)

lemma process_attachment_transform_calls:
  "set (transform_calls (trace (fst (process_attachment h W H a u acc))))
     \<subseteq> insert (W, H) (set (transform_calls (trace (fst acc))))"
  by (auto simp add: process_attachment_def Let_def split: sum.splits)

lemma attachments_loop_transform_calls:
  "set (transform_calls (trace (fst (attachments_loop h W H urls j as acc))))
     \<subseteq> insert (W, H) (set (transform_calls (trace (fst acc))))"
proof (induction as arbitrary: j acc)
  case Nil
  show ?case by auto
next
  case (Cons a as)
  have "set (transform_calls (trace (fst (attachments_loop h W H urls j (a # as) acc))))
          \<subseteq> insert (W, H) (set (transform_calls (trace (fst (process_attachment h W H a (url_at urls j) acc)))))"
    using Cons.IH by simp
  also have "\<dots> \<subseteq> insert (W, H) (insert (W, H) (set (transform_calls (trace (fst acc)))))"
    using process_attachment_transform_calls[of h W H a "url_at urls j" acc] by blast
  finally show ?case by simp
qed

lemma submit_trace:
  "progress_updates (trace (submit h tgt i r acc)) = progress_updates (trace (fst acc))"
  "records_read (trace (submit h tgt i r acc)) = records_read (trace (fst acc))"
  "transform_calls (trace (submit h tgt i r acc)) = transform_calls (trace (fst acc))"
  by (simp_all add: submit_def Let_def split: sum.splits)

lemma submit_files:
  "files_submitted (trace (submit h tgt i r acc)) =
     files_submitted (trace (fst acc)) @ (if snd acc = [] then [] else [(tgt, r, snd acc)])"
  by (simp add: submit_def Let_def split: sum.splits)

lemma process_record_progress:
  "progress_updates (trace (process_record h src tgt W H n i r s0)) =
     progress_updates (trace s0) @ [(i + 1, n)]"
  by (simp add: process_record_def Let_def submit_trace attachments_loop_quiet
      split: sum.splits option.splits)

lemma process_record_read:
  "records_read (trace (process_record h src tgt W H n i r s0)) = records_read (trace s0) @ [r]"
  by (simp add: process_record_def Let_def submit_trace attachments_loop_quiet
      split: sum.splits option.splits)

lemma process_record_transform_calls:
  "set (transform_calls (trace (process_record h src tgt W H n i r s0)))
     \<subseteq> insert (W, H) (set (transform_calls (trace s0)))"
proof -
  have loop: "set (transform_calls (trace (fst (attachments_loop h W H urls 0 al
        (emit (Call_getCellAttachmentUrls (map token al) src r)
          (addLog (Log_Processing (Suc i) (length al)) info
            (emit (Call_getValue src r) (emit (SetProgress (Suc i) n) s0))), [])))))
      \<subseteq> insert (W, H) (set (transform_calls (trace s0)))" for urls al
    using attachments_loop_transform_calls[of h W H urls 0 al
        "(emit (Call_getCellAttachmentUrls (map token al) src r)
          (addLog (Log_Processing (Suc i) (length al)) info
            (emit (Call_getValue src r) (emit (SetProgress (Suc i) n) s0))), [])"]
    by simp
  show ?thesis
    by (simp add: process_record_def Let_def submit_trace loop subset_insertI
        split: sum.splits option.splits)
qed

lemma records_loop_progress:
  "progress_updates (trace (records_loop h src tgt W H n i ids s)) =
     progress_updates (trace s) @ map (\<lambda>k. (k + 1, n)) [i ..< i + length ids]"
proof (induction ids arbitrary: i s)
  case Nil
  show ?case by simp
next
  case (Cons r ids)
  have "[i ..< i + length (r # ids)] = i # [Suc i ..< Suc i + length ids]"
    by (simp add: upt_rec)
  then show ?case
    by (simp add: Cons.IH process_record_progress)
qed

lemma records_loop_read:
  "records_read (trace (records_loop h src tgt W H n i ids s)) = records_read (trace s) @ ids"
  by (induction ids arbitrary: i s) (simp_all add: process_record_read)

lemma records_loop_transform_calls:
  "set (transform_calls (trace (records_loop h src tgt W H n i ids s)))
     \<subseteq> insert (W, H) (set (transform_calls (trace s)))"
proof (induction ids arbitrary: i s)
  case Nil
  show ?case by auto
next
  case (Cons r ids)
  have "set (transform_calls (trace (records_loop h src tgt W H n i (r # ids) s)))
          \<subseteq> insert (W, H) (set (transform_calls (trace (process_record h src tgt W H n i r s))))"
    using Cons.IH by simp
  also have "\<dots> \<subseteq> insert (W, H) (insert (W, H) (set (transform_calls (trace s))))"
    using process_record_transform_calls[of h src tgt W H n i r s] by blast
  finally show ?case by simp
qed

lemma outcome_between_sum:
  "outcome_between s s' \<noteq> None \<Longrightarrow>
     successCount s' + skipCount s' + failCount s' = successCount s + skipCount s + failCount s + 1"
  by (simp add: outcome_between_def split: if_splits)

lemma process_record_outcome_some:
  "outcome_between s0 (process_record h src tgt W H n i r s0) \<noteq> None"
  by (simp add: process_record_outcome Let_def split: sum.splits option.splits)

lemma records_loop_counts:
  "successCount (records_loop h src tgt W H n i ids s) + skipCount (records_loop h src tgt W H n i ids s)
     + failCount (records_loop h src tgt W H n i ids s)
   = successCount s + skipCount s + failCount s + length ids"
proof (induction ids arbitrary: i s)
  case Nil
  show ?case by simp
next
  case (Cons r ids)
  show ?case
    using outcome_between_sum[OF process_record_outcome_some[of s h src tgt W H n i r]]
    by (simp add: Cons.IH)
qed


lemma status_updates_append [simp]:
  "status_updates (xs @ ys) = status_updates xs @ status_updates ys"
  by (induction xs rule: status_updates.induct) simp_all

lemma process_attachment_status:
  "status_updates (trace (fst (process_attachment h W H a u acc))) = status_updates (trace (fst acc))"
  by (simp add: process_attachment_def Let_def split: sum.splits)

lemma attachments_loop_status:
  "status_updates (trace (fst (attachments_loop h W H urls j as acc))) = status_updates (trace (fst acc))"
  by (induction as arbitrary: j acc) (simp_all add: process_attachment_status)

lemma process_record_status:
  "status_updates (trace (process_record h src tgt W H n i r s0)) = status_updates (trace s0)"
  by (simp add: process_record_def submit_def Let_def attachments_loop_status
      split: sum.splits option.splits)

lemma records_loop_status:
  "status_updates (trace (records_loop h src tgt W H n i ids s)) = status_updates (trace s)"
  by (induction ids arbitrary: i s) (simp_all add: process_record_status)

lemma run_body_reaches_loop:
  assumes "getActiveTable h = Inr u" "getRecordIdList h = Inr ids" "ids \<noteq> []"
    "getField h (selectedSourceFieldId a) = Inr v" "getField h (selectedTargetFieldId a) = Inr w"
  shows "run_body h a s0 =
    (let s5 = records_loop h (selectedSourceFieldId a) (selectedTargetFieldId a) (targetWidth a)
                (targetHeight a) (length ids) 0 ids (loop_start a (length ids) s0)
     in (Inr (), emit (SetStatusMsg (Status_Done (successCount s5) (skipCount s5) (failCount s5))) s5))"
  using assms by (simp add: run_body_def Let_def loop_start_def)

lemma run_body_aborts:
  assumes "\<not> (\<exists>u ids v w. getActiveTable h = Inr u \<and> getRecordIdList h = Inr ids \<and> ids \<noteq> [] \<and>
    getField h (selectedSourceFieldId a) = Inr v \<and> getField h (selectedTargetFieldId a) = Inr w)"
  shows "\<exists>e s. run_body h a s0 = (Inl e, s) \<and> records_read (trace s) = records_read (trace s0)
    \<and> transform_calls (trace s) = transform_calls (trace s0)
    \<and> files_submitted (trace s) = files_submitted (trace s0)
    \<and> status_updates (trace s) = status_updates (trace s0)"
  using assms by (auto simp add: run_body_def Let_def split: sum.splits)

lemma run_body_Inr:
  assumes "run_body h a s0 = (Inr x, s')"
  shows "\<exists>u ids v w. getActiveTable h = Inr u \<and> getRecordIdList h = Inr ids \<and> ids \<noteq> [] \<and>
    getField h (selectedSourceFieldId a) = Inr v \<and> getField h (selectedTargetFieldId a) = Inr w"
  using assms run_body_aborts[of h a s0] by (metis Inl_Inr_False fst_conv)


lemma process_attachment_files:
  "snd (process_attachment h W H a u acc) =
     snd acc @ (case produced h W H a u of None \<Rightarrow> [] | Some f \<Rightarrow> [f])"
  by (simp add: process_attachment_def produced_def Let_def split: sum.splits)

lemma attachments_loop_files:
  "snd (attachments_loop h W H urls j as acc) = snd acc @ produced_files h W H urls j as"
  by (induction as arbitrary: j acc) (simp_all add: process_attachment_files)

lemma submit_last:
  "last (trace (submit h tgt i r acc)) =
     (if snd acc = [] then AddLog (Log_NoValidImage (i + 1)) info
      else case setValue h tgt r (snd acc) of
             Inl e \<Rightarrow> AddLog (Log_RowFailed (i + 1) e) error
           | Inr res \<Rightarrow> if res then AddLog (Log_RowSuccess (i + 1)) success
                        else AddLog (Log_SetFailed (i + 1)) error)"
  by (simp add: submit_def Let_def split: sum.splits)

lemma process_record_empty:
  assumes "getValue h src r = Inr None \<or> getValue h src r = Inr (Some [])"
  shows "process_record h src tgt W H n i r s0 =
     no_attachment i (emit (Call_getValue src r) (emit (SetProgress (i + 1) n) s0))"
  using assms by (auto simp add: process_record_def)

lemma process_record_files:
  assumes "getValue h src r = Inr (Some al)" "al \<noteq> []"
    "getCellAttachmentUrls h (map token al) src r = Inr urls"
  shows "\<exists>s4. process_record h src tgt W H n i r s0 =
            submit h tgt i r (s4, produced_files h W H urls 0 al)
          \<and> successCount s4 = successCount s0 \<and> skipCount s4 = skipCount s0
          \<and> failCount s4 = failCount s0
          \<and> files_submitted (trace s4) = files_submitted (trace s0)"
proof -
  define s3 where "s3 = emit (Call_getCellAttachmentUrls (map token al) src r)
      (addLog (Log_Processing (i + 1) (length al)) info
        (emit (Call_getValue src r) (emit (SetProgress (i + 1) n) s0)))"
  define acc where "acc = attachments_loop h W H urls 0 al (s3, [])"
  have pr: "process_record h src tgt W H n i r s0 = submit h tgt i r acc"
    using assms by (simp add: process_record_def acc_def s3_def)
  have acc: "acc = (fst acc, produced_files h W H urls 0 al)"
    by (simp add: prod_eq_iff acc_def attachments_loop_files)
  have "successCount (fst acc) = successCount s0" "skipCount (fst acc) = skipCount s0"
    "failCount (fst acc) = failCount s0"
    "files_submitted (trace (fst acc)) = files_submitted (trace s0)"
    by (simp_all add: acc_def attachments_loop_counts attachments_loop_quiet s3_def)
  with pr acc show ?thesis by metis
qed


lemma process_attachment_failure:
  assumes "isImage (fileName_of a)"
    "download h u = Inl e \<or> (download h u = Inr b \<and> processImageWithPixel (browser_of h) b W H = Inl e)"
  shows "snd (process_attachment h W H a u (s, fs)) = fs"
    "last (trace (fst (process_attachment h W H a u (s, fs)))) = AddLog (Log_AttachmentFailed (name a) e) error"
  using assms by (auto simp add: process_attachment_def Let_def)

lemma download_not_ok:
  "fetch h u = Inr resp \<Longrightarrow> \<not> ok resp \<Longrightarrow> download h u = Inl (DownloadError (statusText resp))"
  by (simp add: download_def)

lemma process_record_failed_only_by_submit:
  assumes "getValue h src r = Inr (Some al)" "al \<noteq> []"
    "getCellAttachmentUrls h (map token al) src r = Inr urls"
    "outcome_between s0 (process_record h src tgt W H n i r s0) = Some outcome_failed"
  shows "produced_files h W H urls 0 al \<noteq> []
       \<and> setValue h tgt r (produced_files h W H urls 0 al) \<noteq> Inr True"
proof -
  obtain s4 where pr: "process_record h src tgt W H n i r s0 =
            submit h tgt i r (s4, produced_files h W H urls 0 al)"
    and c: "successCount s4 = successCount s0" "skipCount s4 = skipCount s0"
      "failCount s4 = failCount s0"
    using process_record_files[OF assms(1-3), of tgt W H n i s0] by blast
  have ob: "outcome_between s0 s' = outcome_between s4 s'" for s'
    by (rule outcome_between_shift) (simp_all add: c)
  have "outcome_between s4 (submit h tgt i r (s4, produced_files h W H urls 0 al)) = Some outcome_failed"
    using assms(4) by (simp add: pr ob)
  then show ?thesis
    using submit_outcome[of "(s4, produced_files h W H urls 0 al)" h tgt i r]
    by (auto split: if_splits)
qed

lemma process_record_success:
  assumes "getValue h src r = Inr (Some al)" "al \<noteq> []"
    "getCellAttachmentUrls h (map token al) src r = Inr urls"
    "produced_files h W H urls 0 al = fs" "fs \<noteq> []" "setValue h tgt r fs = Inr True"
  shows "outcome_between s0 (process_record h src tgt W H n i r s0) = Some outcome_success"
    "files_submitted (trace (process_record h src tgt W H n i r s0))
       = files_submitted (trace s0) @ [(tgt, r, fs)]"
proof -
  obtain s4 where pr: "process_record h src tgt W H n i r s0 =
            submit h tgt i r (s4, produced_files h W H urls 0 al)"
    and c: "successCount s4 = successCount s0" "skipCount s4 = skipCount s0"
      "failCount s4 = failCount s0"
    and f: "files_submitted (trace s4) = files_submitted (trace s0)"
    using process_record_files[OF assms(1-3), of tgt W H n i s0] by blast
  have ob: "outcome_between s0 s' = outcome_between s4 s'" for s'
    by (rule outcome_between_shift) (simp_all add: c)
  show "outcome_between s0 (process_record h src tgt W H n i r s0) = Some outcome_success"
    using submit_outcome[of "(s4, fs)" h tgt i r] assms(4-6) by (simp add: pr ob)
  show "files_submitted (trace (process_record h src tgt W H n i r s0))
       = files_submitted (trace s0) @ [(tgt, r, fs)]"
    using assms(4-6) by (simp add: pr submit_files f)
qed


lemma handleConvert_unselected:
  "selectedSourceFieldId a = [] \<or> selectedTargetFieldId a = [] \<Longrightarrow>
     trace (handleConvert h a) = [SetStatusMsg Status_SelectFields]"
  by (auto simp add: handleConvert_def start_state_def)

lemma handleConvert_selected:
  "selectedSourceFieldId a \<noteq> [] \<Longrightarrow> selectedTargetFieldId a \<noteq> [] \<Longrightarrow>
     handleConvert h a =
       emit (SetProgress 0 0) (emit (SetIsConverting False)
         (case fst (run_body h a run_start) of
            Inl e \<Rightarrow> run_failed e (snd (run_body h a run_start))
          | Inr u \<Rightarrow> snd (run_body h a run_start)))"
  unfolding run_start_def by (simp add: handleConvert_def Let_def)

lemma run_start_trace [simp]:
  "trace run_start = [SetIsConverting True, SetStatusMsg Status_Initializing, SetLogs_empty]"
  by (simp add: run_start_def start_state_def)

lemma loop_start_simps [simp]:
  "trace (loop_start a n s) = trace s @ [Call_getActiveTable, Call_getRecordIdList, SetProgress 0 n,
     Call_getField (selectedSourceFieldId a), Call_getField (selectedTargetFieldId a)]"
  "successCount (loop_start a n s) = 0" "skipCount (loop_start a n s) = 0"
  "failCount (loop_start a n s) = 0"
  by (simp_all add: loop_start_def)

lemma handleConvert_loop:
  assumes "selectedSourceFieldId a \<noteq> []" "selectedTargetFieldId a \<noteq> []"
    "getActiveTable h = Inr u" "getRecordIdList h = Inr ids" "ids \<noteq> []"
    "getField h (selectedSourceFieldId a) = Inr v" "getField h (selectedTargetFieldId a) = Inr w"
  shows "\<exists>s5. s5 = records_loop h (selectedSourceFieldId a) (selectedTargetFieldId a) (targetWidth a)
                (targetHeight a) (length ids) 0 ids (loop_start a (length ids) run_start)
     \<and> trace (handleConvert h a) = trace s5 @
          [SetStatusMsg (Status_Done (successCount s5) (skipCount s5) (failCount s5)),
           SetIsConverting False, SetProgress 0 0]"
  using assms run_body_reaches_loop[OF assms(3-7), of run_start]
  by (simp add: handleConvert_selected Let_def)

lemma handleConvert_abort:
  assumes "selectedSourceFieldId a \<noteq> []" "selectedTargetFieldId a \<noteq> []"
    "\<not> (\<exists>u ids v w. getActiveTable h = Inr u \<and> getRecordIdList h = Inr ids \<and> ids \<noteq> [] \<and>
    getField h (selectedSourceFieldId a) = Inr v \<and> getField h (selectedTargetFieldId a) = Inr w)"
  shows "records_read (trace (handleConvert h a)) = []"
    "transform_calls (trace (handleConvert h a)) = []"
    "files_submitted (trace (handleConvert h a)) = []"
    "\<exists>e. status_updates (trace (handleConvert h a)) =
       [Status_Initializing, if message_empty e then Status_FailedUnknown else Status_Failed e]"
proof -
  obtain e s where rb: "run_body h a run_start = (Inl e, s)"
    and q: "records_read (trace s) = records_read (trace run_start)"
      "transform_calls (trace s) = transform_calls (trace run_start)"
      "files_submitted (trace s) = files_submitted (trace run_start)"
      "status_updates (trace s) = status_updates (trace run_start)"
    using run_body_aborts[OF assms(3), of run_start] by blast
  have hc: "handleConvert h a = emit (SetProgress 0 0) (emit (SetIsConverting False) (run_failed e s))"
    using assms(1,2) rb by (simp add: handleConvert_selected)
  show "records_read (trace (handleConvert h a)) = []"
    "transform_calls (trace (handleConvert h a)) = []"
    "files_submitted (trace (handleConvert h a)) = []"
    using q by (simp_all add: hc run_failed_def)
  have "status_updates (trace (handleConvert h a)) =
       [Status_Initializing, if message_empty e then Status_FailedUnknown else Status_Failed e]"
    using q by (simp add: hc run_failed_def)
  then show "\<exists>e. status_updates (trace (handleConvert h a)) =
       [Status_Initializing, if message_empty e then Status_FailedUnknown else Status_Failed e]"
    by blast
qed

lemma process_record_thrown:
  assumes "getValue h src r = Inl e"
  shows "outcome_between s (process_record h src tgt W H n i r s) = Some outcome_failed"
    "last (trace (process_record h src tgt W H n i r s)) = AddLog (Log_RowFailed (i + 1) e) error"
  using assms by (simp_all add: process_record_def outcome_between_def)

lemma process_record_urls_thrown:
  assumes "getValue h src r = Inr (Some al)" "al \<noteq> []"
    "getCellAttachmentUrls h (map token al) src r = Inl e"
  shows "outcome_between s (process_record h src tgt W H n i r s) = Some outcome_failed"
    "last (trace (process_record h src tgt W H n i r s)) = AddLog (Log_RowFailed (i + 1) e) error"
  using assms by (simp_all add: process_record_def outcome_between_def)

lemma process_record_write_thrown:
  assumes "getValue h src r = Inr (Some al)" "al \<noteq> []"
    "getCellAttachmentUrls h (map token al) src r = Inr urls"
    "produced_files h W H urls 0 al \<noteq> []"
    "setValue h tgt r (produced_files h W H urls 0 al) = Inl e"
  shows "outcome_between s (process_record h src tgt W H n i r s) = Some outcome_failed"
    "last (trace (process_record h src tgt W H n i r s)) = AddLog (Log_RowFailed (i + 1) e) error"
proof -
  obtain s4 where pr: "process_record h src tgt W H n i r s =
            submit h tgt i r (s4, produced_files h W H urls 0 al)"
    and c: "successCount s4 = successCount s" "skipCount s4 = skipCount s"
      "failCount s4 = failCount s"
    using process_record_files[OF assms(1-3), of tgt W H n i s] by blast
  have ob: "outcome_between s s' = outcome_between s4 s'" for s'
    by (rule outcome_between_shift) (simp_all add: c)
  show "outcome_between s (process_record h src tgt W H n i r s) = Some outcome_failed"
    using submit_outcome[of "(s4, produced_files h W H urls 0 al)" h tgt i r] assms(4,5)
    by (simp add: pr ob)
  show "last (trace (process_record h src tgt W H n i r s)) = AddLog (Log_RowFailed (i + 1) e) error"
    using assms(4,5) by (simp add: pr submit_last)
qed


lemma process_record_begins:
  "\<exists>rest. trace (process_record h src tgt W H n i r s)
      = trace s @ SetProgress (i + 1) n # Call_getValue src r # rest
    \<and> progress_updates rest = []"
proof -
  have ext: "\<exists>es. trace (fst (attachments_loop h W H urls j as acc)) = trace (fst acc) @ es"
    for urls j as acc
  proof (induction as arbitrary: j acc)
    case Nil
    show ?case by simp
  next
    case (Cons a as)
    have "\<exists>es. trace (fst (process_attachment h W H a (url_at urls j) acc)) = trace (fst acc) @ es"
      by (simp add: process_attachment_def Let_def split: sum.splits)
    with Cons.IH[of "Suc j" "process_attachment h W H a (url_at urls j) acc"]
    show ?case by auto
  qed
  have sub: "\<exists>es. trace (submit h tgt i r acc) = trace (fst acc) @ es" for acc
    by (simp add: submit_def Let_def split: sum.splits)
  have "\<exists>rest. trace (process_record h src tgt W H n i r s)
      = trace s @ SetProgress (i + 1) n # Call_getValue src r # rest"
  proof (cases "getValue h src r")
    case (Inl e)
    then show ?thesis by (simp add: process_record_def)
  next
    case (Inr cell)
    show ?thesis
    proof (cases cell)
      case None
      with Inr show ?thesis by (simp add: process_record_def)
    next
      case (Some al)
      show ?thesis
      proof (cases "al = []")
        case True
        with Inr Some show ?thesis by (simp add: process_record_def)
      next
        case False
        show ?thesis
        proof (cases "getCellAttachmentUrls h (map token al) src r")
          case (Inl e)
          with Inr Some False show ?thesis by (simp add: process_record_def)
        next
          case urls: (Inr urls)
          define s3 where "s3 = emit (Call_getCellAttachmentUrls (map token al) src r)
            (addLog (Log_Processing (i + 1) (length al)) info
              (emit (Call_getValue src r) (emit (SetProgress (i + 1) n) s)))"
          define acc where "acc = attachments_loop h W H urls 0 al (s3, [])"
          have pr: "process_record h src tgt W H n i r s = submit h tgt i r acc"
            using Inr Some False urls by (simp add: process_record_def acc_def s3_def)
          obtain es1 where es1: "trace (fst acc) = trace s3 @ es1"
            using ext[of urls 0 al "(s3, [])"] by (auto simp add: acc_def)
          obtain es2 where es2: "trace (submit h tgt i r acc) = trace (fst acc) @ es2"
            using sub[of acc] by blast
          show ?thesis
            by (simp add: pr es2 es1 s3_def)
        qed
      qed
    qed
  qed
  then obtain rest where rest: "trace (process_record h src tgt W H n i r s)
      = trace s @ SetProgress (i + 1) n # Call_getValue src r # rest"
    by blast
  have "progress_updates (trace (process_record h src tgt W H n i r s))
      = progress_updates (trace s) @ [(i + 1, n)]"
    by (rule process_record_progress)
  with rest have "progress_updates rest = []"
    by simp
  with rest show ?thesis by blast
qed

lemma app_after_append: "app_after a (xs @ ys) = app_after (app_after a xs) ys"
  by (simp add: app_after_def)

lemma handleConvert_ends_reset:
  assumes "selectedSourceFieldId a \<noteq> []" "selectedTargetFieldId a \<noteq> []"
  shows "\<exists>es. trace (handleConvert h a) = es @ [SetProgress 0 0]"
  using assms by (simp add: handleConvert_selected)


lemma app_after_target:
  "targetWidth (app_after a es) = targetWidth a \<and> targetHeight (app_after a es) = targetHeight a"
proof (induction es arbitrary: a)
  case Nil
  show ?case by (simp add: app_after_def)
next
  case (Cons e es)
  have "targetWidth (apply_effect a e) = targetWidth a \<and> targetHeight (apply_effect a e) = targetHeight a"
    by (cases e) simp_all
  with Cons.IH[of "apply_effect a e"] show ?case
    by (simp add: app_after_def)
qed

lemma Number_or_1_nonzero: "Number_or_1 v \<noteq> 0"
  by (simp add: Number_or_1_def split: option.splits)

lemma ui_step_nonzero:
  "targetWidth a \<noteq> 0 \<and> targetHeight a \<noteq> 0 \<Longrightarrow>
     targetWidth (ui_step a ev) \<noteq> 0 \<and> targetHeight (ui_step a ev) \<noteq> 0"
  by (cases ev) (simp_all add: Number_or_1_nonzero app_after_target)

lemma foldl_ui_step_nonzero:
  "targetWidth a \<noteq> 0 \<and> targetHeight a \<noteq> 0 \<Longrightarrow>
     targetWidth (foldl ui_step a evs) \<noteq> 0 \<and> targetHeight (foldl ui_step a evs) \<noteq> 0"
proof (induction evs arbitrary: a)
  case Nil
  then show ?case by simp
next
  case (Cons ev evs)
  from Cons.IH[OF ui_step_nonzero[OF Cons.prems, of ev]] show ?case by simp
qed

lemma app_of_events_nonzero:
  "targetWidth (app_of_events evs) \<noteq> 0 \<and> targetHeight (app_of_events evs) \<noteq> 0"
  unfolding app_of_events_def
  by (rule foldl_ui_step_nonzero) (simp add: initial_app_def)

lemma handleConvert_transform_calls:
  "set (transform_calls (trace (handleConvert h a))) \<subseteq> {(targetWidth a, targetHeight a)}"
proof (cases "selectedSourceFieldId a = [] \<or> selectedTargetFieldId a = []")
  case True
  then show ?thesis by (simp add: handleConvert_unselected)
next
  case sel: False
  show ?thesis
  proof (cases "\<exists>u ids v w. getActiveTable h = Inr u \<and> getRecordIdList h = Inr ids \<and> ids \<noteq> [] \<and>
        getField h (selectedSourceFieldId a) = Inr v \<and> getField h (selectedTargetFieldId a) = Inr w")
    case True
    then obtain u ids v w where ok: "getActiveTable h = Inr u" "getRecordIdList h = Inr ids" "ids \<noteq> []"
      "getField h (selectedSourceFieldId a) = Inr v" "getField h (selectedTargetFieldId a) = Inr w"
      by blast
    obtain s5 where s5: "s5 = records_loop h (selectedSourceFieldId a) (selectedTargetFieldId a)
                (targetWidth a) (targetHeight a) (length ids) 0 ids (loop_start a (length ids) run_start)"
      and tr: "trace (handleConvert h a) = trace s5 @
          [SetStatusMsg (Status_Done (successCount s5) (skipCount s5) (failCount s5)),
           SetIsConverting False, SetProgress 0 0]"
      using handleConvert_loop[of a h u ids v w] sel ok by blast
    have "set (transform_calls (trace s5))
        \<subseteq> insert (targetWidth a, targetHeight a)
            (set (transform_calls (trace (loop_start a (length ids) run_start))))"
      unfolding s5 by (rule records_loop_transform_calls)
    then show ?thesis
      by (simp add: tr)
  next
    case False
    with sel show ?thesis
      using handleConvert_abort(2)[of a h] by simp
  qed
qed

section \<open>File names\<close>

text \<open>The digits that \<open>numberToString\<close> prints are those of the number.\<close>

lemma digit_char_value: "n < 10 \<Longrightarrow> of_char (''0123456789'' ! n) - 48 = n"
  by (auto simp add: eval_nat_numeral less_Suc_eq)

lemma decimal_value_digits: "decimal_value (digits n) = n"
proof (induction n rule: digits.induct)
  case (1 n)
  show ?case
  proof (cases "n < 10")
    case True
    then show ?thesis
      by (subst digits.simps) (simp add: decimal_value_def digit_char_value)
  next
    case False
    have m: "n mod 10 < 10" by simp
    from False 1 have "decimal_value (digits (n div 10)) = n div 10" by simp
    then show ?thesis
      using False digit_char_value[OF m]
      by (subst digits.simps) (simp add: decimal_value_def)
  qed
qed

lemma lastIndexOf_from_absent:
  "c \<notin> set xs \<Longrightarrow> lastIndexOf_from c xs i found = found"
  by (induction xs arbitrary: i found) auto

lemma lastIndexOf_from_present:
  "c \<in> set xs \<Longrightarrow>
     \<exists>k < length xs. lastIndexOf_from c xs i found = int (i + k) \<and> xs ! k = c
        \<and> c \<notin> set (drop (Suc k) xs)"
proof (induction xs arbitrary: i found)
  case Nil
  then show ?case by simp
next
  case (Cons x xs)
  show ?case
  proof (cases "c \<in> set xs")
    case True
    from Cons.IH[OF True, of "Suc i" "if x = c then int i else found"]
    obtain k where k: "k < length xs"
      "lastIndexOf_from c xs (Suc i) (if x = c then int i else found) = int (Suc i + k)"
      "xs ! k = c" "c \<notin> set (drop (Suc k) xs)"
      by blast
    then have "Suc k < length (x # xs) \<and> lastIndexOf_from c (x # xs) i found = int (i + Suc k)
        \<and> (x # xs) ! Suc k = c \<and> c \<notin> set (drop (Suc (Suc k)) (x # xs))"
      by simp
    then show ?thesis by blast
  next
    case False
    with Cons.prems have xc: "x = c" by simp
    have "0 < length (x # xs) \<and> lastIndexOf_from c (x # xs) i found = int (i + 0)
        \<and> (x # xs) ! 0 = c \<and> c \<notin> set (drop (Suc 0) (x # xs))"
      using False xc by (simp add: lastIndexOf_from_absent)
    then show ?thesis by blast
  qed
qed

lemma baseName_no_dot: "CHR ''.'' \<notin> set fileName \<Longrightarrow> baseName fileName = fileName"
  by (simp add: baseName_def includes_str_def)

lemma baseName_dot:
  assumes "CHR ''.'' \<in> set fileName"
  shows "\<exists>ext. fileName = baseName fileName @ CHR ''.'' # ext \<and> CHR ''.'' \<notin> set ext"
proof -
  obtain k where k: "k < length fileName" "lastIndexOf fileName (CHR ''.'') = int k"
    "fileName ! k = CHR ''.''" "CHR ''.'' \<notin> set (drop (Suc k) fileName)"
    using lastIndexOf_from_present[OF assms, of 0 "- 1"] by (auto simp add: lastIndexOf_def)
  have "baseName fileName = take k fileName"
    using assms k(1,2) by (simp add: baseName_def includes_str_def substring_def Let_def)
  moreover have "fileName = take k fileName @ fileName ! k # drop (Suc k) fileName"
    using k(1) by (rule id_take_nth_drop)
  ultimately have "fileName = baseName fileName @ CHR ''.'' # drop (Suc k) fileName"
    using k(3) by simp
  with k(4) show ?thesis by blast
qed

lemma process_attachment_file:
  "snd (process_attachment h W H a u (s, fs)) = fs
   \<or> (\<exists>b. snd (process_attachment h W H a u (s, fs))
            = fs @ [File [b] (newFileName (fileName_of a) W H) ''image/jpeg''])"
  by (simp add: process_attachment_files produced_def split: sum.splits)


lemma spec_split_None: "spec_split_last_dot f = None \<longleftrightarrow> CHR ''.'' \<notin> set f"
  by (induction f) (auto split: option.splits)

lemma spec_split_Some:
  "spec_split_last_dot f = Some (stem, ext) \<longleftrightarrow> f = stem @ CHR ''.'' # ext \<and> CHR ''.'' \<notin> set ext"
proof (induction f arbitrary: stem ext)
  case Nil
  show ?case by simp
next
  case (Cons c cs)
  show ?case
  proof (cases "spec_split_last_dot cs")
    case None
    then have nd: "CHR ''.'' \<notin> set cs" by (simp add: spec_split_None)
    show ?thesis
    proof
      assume "spec_split_last_dot (c # cs) = Some (stem, ext)"
      with None have "c = CHR ''.''" "stem = []" "ext = cs"
        by (auto split: if_splits)
      with nd show "c # cs = stem @ CHR ''.'' # ext \<and> CHR ''.'' \<notin> set ext" by simp
    next
      assume r: "c # cs = stem @ CHR ''.'' # ext \<and> CHR ''.'' \<notin> set ext"
      have "stem = []"
      proof (cases stem)
        case Nil
        then show ?thesis .
      next
        case (Cons x xs)
        with r have "cs = xs @ CHR ''.'' # ext" by simp
        with nd show ?thesis by simp
      qed
      with r None show "spec_split_last_dot (c # cs) = Some (stem, ext)" by simp
    qed
  next
    case (Some p)
    obtain st ex where p: "p = (st, ex)" by (cases p)
    from Some p Cons.IH[of st ex] have cs: "cs = st @ CHR ''.'' # ex" "CHR ''.'' \<notin> set ex"
      by simp_all
    show ?thesis
    proof
      assume "spec_split_last_dot (c # cs) = Some (stem, ext)"
      with Some p have "stem = c # st" "ext = ex" by simp_all
      with cs show "c # cs = stem @ CHR ''.'' # ext \<and> CHR ''.'' \<notin> set ext" by simp
    next
      assume r: "c # cs = stem @ CHR ''.'' # ext \<and> CHR ''.'' \<notin> set ext"
      have "stem \<noteq> []"
      proof
        assume "stem = []"
        with r have "cs = ext" by simp
        with r cs show False by simp
      qed
      then obtain xs where stem: "stem = c # xs" "cs = xs @ CHR ''.'' # ext"
        using r by (cases stem) auto
      with r Cons.IH[of xs ext] have "spec_split_last_dot cs = Some (xs, ext)" by simp
      with Some p stem show "spec_split_last_dot (c # cs) = Some (stem, ext)" by simp
    qed
  qed
qed


lemma canonicalize_dot: "canonicalize c = canonicalize (CHR ''.'') \<longleftrightarrow> c = CHR ''.''"
  by (simp add: canonicalize_def)

lemma canonicalize_letter:
  assumes "d \<in> set ''befgijmnpw''"
  shows "canonicalize c = canonicalize d \<longleftrightarrow> lower c = d"
proof -
  from assms consider "d = CHR ''b''" | "d = CHR ''e''" | "d = CHR ''f''" | "d = CHR ''g''"
    | "d = CHR ''i''" | "d = CHR ''j''" | "d = CHR ''m''" | "d = CHR ''n''" | "d = CHR ''p''"
    | "d = CHR ''w''"
    by auto
  then show ?thesis
    by cases (simp_all add: canonicalize_def lower_def)
qed

lemma lower_letter_not_dot:
  assumes "d \<in> set ''befgijmnpw''" "lower c = d"
  shows "c \<noteq> CHR ''.''"
proof
  assume "c = CHR ''.''"
  with assms(2) have "d = CHR ''.''" by (simp add: lower_def)
  with assms(1) show False by simp
qed

lemma extensions_letters: "ext \<in> set extensions \<Longrightarrow> set ext \<subseteq> set ''befgijmnpw''"
  by (auto simp add: extensions_def)

lemma map_canonicalize_letters:
  "set ext \<subseteq> set ''befgijmnpw'' \<Longrightarrow>
     map canonicalize e = map canonicalize ext \<longleftrightarrow> map lower e = ext"
proof (induction ext arbitrary: e)
  case Nil
  show ?case by simp
next
  case (Cons d ds)
  show ?case
  proof (cases e)
    case Nil
    then show ?thesis by simp
  next
    case (Cons c cs)
    have "d \<in> set ''befgijmnpw''" "set ds \<subseteq> set ''befgijmnpw''"
      using Cons.prems by simp_all
    then show ?thesis
      using Cons.IH[of cs] canonicalize_letter[of d c] Cons by simp
  qed
qed

lemma map_lower_no_dot:
  "set ext \<subseteq> set ''befgijmnpw'' \<Longrightarrow> map lower e = ext \<Longrightarrow> CHR ''.'' \<notin> set e"
proof
  assume s: "set ext \<subseteq> set ''befgijmnpw''" and m: "map lower e = ext" and d: "CHR ''.'' \<in> set e"
  from d have "lower (CHR ''.'') \<in> set (map lower e)" by (simp add: image_iff) blast
  with m s have "lower (CHR ''.'') \<in> set ''befgijmnpw''" by blast
  then show False by (simp add: lower_def)
qed

lemma ends_with_ci_dot_ext:
  assumes "set ext \<subseteq> set ''befgijmnpw''"
  shows "ends_with_ci f (CHR ''.'' # ext) \<longleftrightarrow> (\<exists>stem e. f = stem @ CHR ''.'' # e \<and> map lower e = ext)"
proof
  assume ew: "ends_with_ci f (CHR ''.'' # ext)"
  define k where "k = length f - length (CHR ''.'' # ext)"
  from ew have len: "length (CHR ''.'' # ext) \<le> length f"
    and m: "map canonicalize (drop k f) = map canonicalize (CHR ''.'' # ext)"
    by (simp_all add: ends_with_ci_def k_def)
  from m obtain c e where de: "drop k f = c # e"
    by (cases "drop k f") auto
  with m have "canonicalize c = canonicalize (CHR ''.'')" "map canonicalize e = map canonicalize ext"
    by simp_all
  then have "c = CHR ''.''" "map lower e = ext"
    using canonicalize_dot[of c] map_canonicalize_letters[OF assms, of e] by simp_all
  moreover have "f = take k f @ drop k f" by simp
  ultimately have "f = take k f @ CHR ''.'' # e \<and> map lower e = ext"
    using de by simp
  then show "\<exists>stem e. f = stem @ CHR ''.'' # e \<and> map lower e = ext" by blast
next
  assume "\<exists>stem e. f = stem @ CHR ''.'' # e \<and> map lower e = ext"
  then obtain stem e where f: "f = stem @ CHR ''.'' # e" and m: "map lower e = ext" by blast
  from m have l: "length e = length ext" by auto
  from m have "map canonicalize e = map canonicalize ext"
    using map_canonicalize_letters[OF assms, of e] by simp
  with l show "ends_with_ci f (CHR ''.'' # ext)"
    by (simp add: ends_with_ci_def f)
qed

lemma isImage_iff_spec: "isImage f \<longleftrightarrow> spec_is_image f"
proof
  assume "isImage f"
  then obtain ext where ext: "ext \<in> set extensions" "ends_with_ci f (CHR ''.'' # ext)"
    by (auto simp add: isImage_def list_ex_iff)
  then obtain stem e where f: "f = stem @ CHR ''.'' # e" "map lower e = ext"
    using ends_with_ci_dot_ext[OF extensions_letters[OF ext(1)], of f] by blast
  then have "CHR ''.'' \<notin> set e"
    using map_lower_no_dot[OF extensions_letters[OF ext(1)]] by blast
  with f have "spec_split_last_dot f = Some (stem, e)"
    by (simp add: spec_split_Some)
  with f(2) ext(1) show "spec_is_image f"
    by (simp add: spec_is_image_def)
next
  assume "spec_is_image f"
  then obtain stem e where s: "spec_split_last_dot f = Some (stem, e)" "map lower e \<in> set extensions"
    by (auto simp add: spec_is_image_def split: option.splits)
  then have "f = stem @ CHR ''.'' # e" by (simp add: spec_split_Some)
  then have "ends_with_ci f (CHR ''.'' # map lower e)"
    using ends_with_ci_dot_ext[OF extensions_letters[OF s(2)], of f] by blast
  with s(2) show "isImage f"
    by (auto simp add: isImage_def list_ex_iff)
qed

lemma process_attachment_not_image:
  "\<not> isImage (fileName_of a) \<Longrightarrow>
     process_attachment h W H a u (s, fs) = (addLog (Log_SkipNonImage (fileName_of a)) info s, fs)"
  by (simp add: process_attachment_def)

lemma produced_files_no_image:
  "\<forall>a \<in> set as. \<not> isImage (fileName_of a) \<Longrightarrow> produced_files h W H urls j as = []"
  by (induction as arbitrary: j) (simp_all add: produced_def)

section \<open>The transform\<close>

lemma unsigned_long_attribute_id:
  "0 \<le> v \<Longrightarrow> v \<le> 2147483647 \<Longrightarrow> unsigned_long_attribute fallback v = v"
  by (simp add: unsigned_long_attribute_def)

lemma processImageWithPixel_Inr:
  assumes "processImageWithPixel br blob tw th = Inr out"
  shows "\<exists>img c. decode br blob = Some img \<and> getContext br
     \<and> out = CanvasBlob c ''image/jpeg'' (round_double (9 / 10))
     \<and> width c = unsigned_long_attribute 300 tw \<and> height c = unsigned_long_attribute 150 th
     \<and> painted c = [FillRect ''#FFFFFF'' 0 0 (of_int tw) (of_int th),
                     DrawImage img (sourceRect (naturalWidth img) (naturalHeight img) tw th)
                       0 0 (of_int tw) (of_int th)]"
  using assms
  by (auto simp add: processImageWithPixel_def Let_def set_width_def set_height_def fillRect_def
      drawImage_def createElement_canvas_def split: option.splits if_splits)

lemma processImageWithPixel_returns:
  assumes "decode br blob = Some img" "getContext br" "\<forall>c. \<not> toBlob_null br c"
  shows "\<exists>out. processImageWithPixel br blob tw th = Inr out"
  using assms by (simp add: processImageWithPixel_def Let_def)

section \<open>Rounding\<close>

lemma pow2_pos: "0 < pow2 e"
  by (simp add: pow2_def)

lemma pow2_power_int: "pow2 e = power_int 2 e"
  by (simp add: pow2_def power_int_def field_simps)

lemma pow2_add: "pow2 (a + b) = pow2 a * pow2 b"
  by (simp add: pow2_power_int power_int_add)

lemma pow2_numeral: "pow2 52 = 2 ^ 52"
  by (simp add: pow2_def)

lemma ilog2_lower:
  assumes "0 < a"
  shows "pow2 (ilog2 a) \<le> a"
proof (cases "1 \<le> a")
  case True
  then have fl: "0 < \<lfloor>a\<rfloor>" by simp
  from bitlen_bounds[OF fl] have b: "2 ^ nat (bitlen \<lfloor>a\<rfloor> - 1) \<le> \<lfloor>a\<rfloor>" by simp
  have nn: "0 \<le> bitlen \<lfloor>a\<rfloor> - 1"
    using fl by (simp add: bitlen_alt_def)
  have "(of_int (2 ^ nat (bitlen \<lfloor>a\<rfloor> - 1)) :: rat) \<le> of_int \<lfloor>a\<rfloor>"
    using b by (simp only: of_int_le_iff)
  also have "\<dots> \<le> a" by simp
  finally show ?thesis
    using True nn by (simp add: ilog2_def pow2_def)
next
  case False
  with assms have a1: "a < 1" by simp
  define N where "N = \<lceil>1 / a\<rceil>"
  have "1 < 1 / a" using assms a1 by (simp add: field_simps)
  then have N2: "1 < N" unfolding N_def by (simp add: less_ceiling_iff)
  then have pos: "0 < N - 1" by simp
  define b where "b = bitlen (N - 1)"
  from bitlen_bounds[OF pos] have "N - 1 < 2 ^ nat b" by (simp add: b_def)
  then have "N \<le> 2 ^ nat b" by simp
  then have "(of_int N :: rat) \<le> of_int (2 ^ nat b)" by (simp only: of_int_le_iff)
  then have "(of_int N :: rat) \<le> 2 ^ nat b" by simp
  moreover have "1 / a \<le> of_int N" unfolding N_def by (rule le_of_int_ceiling)
  ultimately have le: "1 / a \<le> 2 ^ nat b" by (rule order_trans[rotated])
  have bpos: "0 < b" using pos by (simp add: b_def bitlen_alt_def)
  have "1 / 2 ^ nat b \<le> a"
    using le assms by (simp add: field_simps)
  then show ?thesis
    using a1 bpos by (simp add: ilog2_def pow2_def N_def[symmetric] b_def[symmetric])
qed

lemma round_half_even_near: "\<bar>of_int (round_half_even m) - m\<bar> \<le> 1 / 2"
proof -
  have "of_int \<lfloor>m\<rfloor> \<le> m" "m < of_int \<lfloor>m\<rfloor> + 1"
    by linarith+
  then show ?thesis
    by (auto simp add: round_half_even_def Let_def abs_le_iff)
qed

lemma round_double_near:
  assumes "x \<noteq> 0"
  shows "\<bar>round_double x - x\<bar> \<le> \<bar>x\<bar> / 2 ^ 53"
proof -
  define a where "a = \<bar>x\<bar>"
  define e where "e = ilog2 a - 52"
  define m where "m = a / pow2 e"
  define n where "n = round_half_even m"
  have apos: "0 < a" using assms by (simp add: a_def)
  have pe: "0 < pow2 e" by (rule pow2_pos)
  have rd: "round_double x = sgn x * of_int n * pow2 e"
    using assms by (simp add: round_double_def Let_def a_def e_def m_def n_def)
  have x: "x = sgn x * m * pow2 e"
    using pe by (simp add: m_def a_def sgn_mult_abs)
  have "round_double x - x = sgn x * (of_int n - m) * pow2 e"
    by (subst (2) x) (simp add: rd algebra_simps)
  then have "\<bar>round_double x - x\<bar> = \<bar>of_int n - m\<bar> * pow2 e"
    using assms pe by (simp add: abs_mult abs_sgn_eq)
  also have "\<dots> \<le> (1 / 2) * pow2 e"
    using round_half_even_near[of m] pe by (simp add: n_def mult_right_mono)
  finally have 1: "\<bar>round_double x - x\<bar> \<le> pow2 e / 2" by simp
  have "pow2 (ilog2 a) = pow2 (e + 52)" by (simp add: e_def)
  also have "\<dots> = pow2 e * 2 ^ 52" by (simp add: pow2_add pow2_numeral)
  finally have "pow2 e * 2 ^ 52 \<le> a"
    using ilog2_lower[OF apos] by simp
  then have "pow2 e / 2 \<le> a / 2 ^ 53"
    by (simp add: field_simps)
  with 1 show ?thesis by (simp add: a_def)
qed


text \<open>What \<open>round_double\<close> gives has a significand of 53 bits.\<close>

lemma ilog2_upper:
  assumes "0 < a"
  shows "a < pow2 (ilog2 a + 1)"
proof (cases "1 \<le> a")
  case True
  then have fl: "0 < \<lfloor>a\<rfloor>" by simp
  from bitlen_bounds[OF fl] have b: "\<lfloor>a\<rfloor> < 2 ^ nat (bitlen \<lfloor>a\<rfloor>)" by simp
  then have "\<lfloor>a\<rfloor> + 1 \<le> 2 ^ nat (bitlen \<lfloor>a\<rfloor>)" by simp
  then have "(of_int (\<lfloor>a\<rfloor> + 1) :: rat) \<le> of_int (2 ^ nat (bitlen \<lfloor>a\<rfloor>))"
    by (simp only: of_int_le_iff)
  then have "(of_int \<lfloor>a\<rfloor> + 1 :: rat) \<le> 2 ^ nat (bitlen \<lfloor>a\<rfloor>)" by simp
  moreover have "a < of_int \<lfloor>a\<rfloor> + 1" by linarith
  ultimately have "a < 2 ^ nat (bitlen \<lfloor>a\<rfloor>)" by linarith
  moreover have "0 \<le> bitlen \<lfloor>a\<rfloor>" by (rule bitlen_nonneg)
  ultimately show ?thesis
    using True by (simp add: ilog2_def pow2_def)
next
  case False
  with assms have a1: "a < 1" by simp
  define N where "N = \<lceil>1 / a\<rceil>"
  have "1 < 1 / a" using assms a1 by (simp add: field_simps)
  then have N2: "1 < N" unfolding N_def by (simp add: less_ceiling_iff)
  then have pos: "0 < N - 1" by simp
  define b where "b = bitlen (N - 1)"
  have bpos: "0 < b" using pos by (simp add: b_def bitlen_alt_def)
  from bitlen_bounds[OF pos] have "2 ^ nat (b - 1) \<le> N - 1" by (simp add: b_def)
  then have "(of_int (2 ^ nat (b - 1)) :: rat) \<le> of_int (N - 1)" by (simp only: of_int_le_iff)
  then have "(2 ^ nat (b - 1) :: rat) \<le> of_int N - 1" by simp
  moreover have "of_int N - 1 < 1 / a" unfolding N_def by linarith
  ultimately have lt: "2 ^ nat (b - 1) < 1 / a" by linarith
  have "a < 1 / 2 ^ nat (b - 1)"
    using lt assms by (simp add: field_simps)
  moreover have "pow2 (- b + 1) = 1 / 2 ^ nat (b - 1)"
    using bpos by (cases "b = 1") (simp_all add: pow2_def)
  ultimately show ?thesis
    using a1 by (simp add: ilog2_def N_def[symmetric] b_def[symmetric])
qed

lemma round_half_even_range:
  assumes "of_int lo \<le> m" "m < of_int hi"
  shows "lo \<le> round_half_even m" "round_half_even m \<le> hi"
proof -
  have f: "lo \<le> \<lfloor>m\<rfloor>" "\<lfloor>m\<rfloor> < hi"
    using assms by (simp_all add: le_floor_iff floor_less_iff)
  then show "lo \<le> round_half_even m" "round_half_even m \<le> hi"
    by (auto simp add: round_half_even_def Let_def)
qed

lemma round_double_significand:
  assumes "x \<noteq> 0"
  shows "\<exists>n e. round_double x = sgn x * of_int n * pow2 e \<and> 2 ^ 52 \<le> n \<and> n \<le> 2 ^ 53"
proof -
  define a where "a = \<bar>x\<bar>"
  define e where "e = ilog2 a - 52"
  define m where "m = a / pow2 e"
  define n where "n = round_half_even m"
  have apos: "0 < a" using assms by (simp add: a_def)
  have pe: "0 < pow2 e" by (rule pow2_pos)
  have rd: "round_double x = sgn x * of_int n * pow2 e"
    using assms by (simp add: round_double_def Let_def a_def e_def m_def n_def)
  have k: "pow2 (ilog2 a) = pow2 e * 2 ^ 52"
  proof -
    have "ilog2 a = e + 52" by (simp add: e_def)
    then have "pow2 (ilog2 a) = pow2 (e + 52)" by (rule arg_cong)
    then show ?thesis by (simp add: pow2_add pow2_numeral)
  qed
  have k1: "pow2 (ilog2 a + 1) = pow2 e * 2 ^ 53"
  proof -
    have "ilog2 a + 1 = e + 53" by (simp add: e_def)
    then have "pow2 (ilog2 a + 1) = pow2 (e + 53)" by (rule arg_cong)
    also have "\<dots> = pow2 e * pow2 53" by (rule pow2_add)
    finally show ?thesis by (simp add: pow2_def)
  qed
  have "pow2 e * 2 ^ 52 \<le> a" using ilog2_lower[OF apos] k by simp
  then have lo: "of_int (2 ^ 52) \<le> m" using pe by (simp add: m_def field_simps)
  have "a < pow2 e * 2 ^ 53" using ilog2_upper[OF apos] k1 by simp
  then have hi: "m < of_int (2 ^ 53)" using pe by (simp add: m_def field_simps)
  from round_half_even_range[OF lo hi] have "2 ^ 52 \<le> n" "n \<le> 2 ^ 53"
    by (simp_all add: n_def)
  with rd show ?thesis by blast
qed

lemma round_double_pos:
  assumes "0 < x"
  shows "0 < round_double x"
proof -
  have "\<bar>round_double x - x\<bar> \<le> \<bar>x\<bar> / 2 ^ 53"
    using assms by (intro round_double_near) simp
  moreover have "\<bar>x\<bar> / 2 ^ 53 < x"
    using assms by (simp add: field_simps)
  ultimately show ?thesis by linarith
qed

lemma round_double_nonzero: "x \<noteq> 0 \<Longrightarrow> round_double x \<noteq> 0"
proof
  assume x: "x \<noteq> 0" and z: "round_double x = 0"
  from round_double_near[OF x] z have "\<bar>x\<bar> \<le> \<bar>x\<bar> / 2 ^ 53" by simp
  moreover have "\<bar>x\<bar> / 2 ^ 53 < \<bar>x\<bar>" using x by (simp add: field_simps)
  ultimately show False by linarith
qed

lemma round_double_abs_le: "\<bar>round_double x\<bar> \<le> 2 * \<bar>x\<bar>"
proof (cases "x = 0")
  case True
  then show ?thesis by (simp add: round_double_def)
next
  case False
  from round_double_near[OF False] have "\<bar>round_double x\<bar> \<le> \<bar>x\<bar> + \<bar>x\<bar> / 2 ^ 53"
    by linarith
  moreover have "\<bar>x\<bar> / 2 ^ 53 \<le> \<bar>x\<bar>" by (simp add: field_simps)
  ultimately show ?thesis by linarith
qed

lemma crop_error:
  fixes u r t q sh ih :: rat
  assumes u: "0 < u" "u \<le> 1 / 2" and r: "0 < r" and ih: "0 < ih"
    and t: "\<bar>t - r\<bar> \<le> u * r" and q: "q * t = ih * r" and sh: "\<bar>sh - q\<bar> \<le> u * q"
  shows "\<bar>sh - ih\<bar> \<le> 4 * u * ih" "\<bar>sh - ih\<bar> \<le> 2 * u * q" "(1 - u) * q \<le> ih"
proof -
  have t1: "(1 - u) * r \<le> t" "t \<le> (1 + u) * r"
    using t by (simp_all add: abs_le_iff algebra_simps)
  have "0 < (1 - u) * r" using u r by simp
  with t1(1) have tpos: "0 < t" by linarith
  have qpos: "0 < q"
  proof (rule ccontr)
    assume "\<not> 0 < q"
    then have "q * t \<le> 0" using tpos by (simp add: mult_le_0_iff)
    moreover have "0 < ih * r" using ih r by simp
    ultimately show False using q by simp
  qed
  have "q * ((1 - u) * r) \<le> q * t"
    using t1(1) qpos by (simp add: mult_left_mono)
  then have "((1 - u) * q) * r \<le> ih * r"
    using q by (simp add: algebra_simps)
  then have lo: "(1 - u) * q \<le> ih"
    using r by (simp add: mult_le_cancel_right)
  have "q * t \<le> q * ((1 + u) * r)"
    using t1(2) qpos by (simp add: mult_left_mono)
  then have "ih * r \<le> ((1 + u) * q) * r"
    using q by (simp add: algebra_simps)
  then have hi: "ih \<le> (1 + u) * q"
    using r by (simp add: mult_le_cancel_right)
  from lo hi have qi: "\<bar>q - ih\<bar> \<le> u * q"
    by (simp add: abs_le_iff algebra_simps)
  have "q / 2 \<le> (1 - u) * q"
    using u qpos by (simp add: field_simps)
  with lo have q2: "q \<le> 2 * ih" by linarith
  show "(1 - u) * q \<le> ih" by (rule lo)
  have "\<bar>sh - ih\<bar> \<le> \<bar>sh - q\<bar> + \<bar>q - ih\<bar>" by linarith
  with sh qi show s2: "\<bar>sh - ih\<bar> \<le> 2 * u * q" by linarith
  have "2 * u * q \<le> 2 * u * (2 * ih)"
    using q2 u by (simp add: mult_left_mono)
  with s2 show "\<bar>sh - ih\<bar> \<le> 4 * u * ih" by linarith
qed


lemma js_div_Some: "b \<noteq> 0 \<Longrightarrow> js_div a b = Some (round_double (a / b))"
  by (simp add: js_div_def)

lemma tie_bounds:
  fixes iw ih :: nat
  assumes pos: "0 < iw" "0 < ih"
    and t: "t = round_double (of_nat iw / of_nat ih)"
    and sh: "sh = round_double (of_nat iw / t)"
    and sy: "sy = round_double (js_sub (of_nat ih) sh / 2)"
  shows "\<bar>sh - of_nat ih\<bar> \<le> of_nat ih / 2 ^ 51" "\<bar>sy\<bar> \<le> of_nat ih / 2 ^ 51"
proof -
  define u :: rat where "u = 1 / 2 ^ 53"
  define r :: rat where "r = of_nat iw / of_nat ih"
  define q :: rat where "q = of_nat iw / t"
  have u: "0 < u" "u \<le> 1 / 2" by (simp_all add: u_def)
  have r: "0 < r" using pos by (simp add: r_def)
  have ihp: "(0::rat) < of_nat ih" using pos by simp
  have tpos: "0 < t" unfolding t r_def[symmetric] using r by (rule round_double_pos)
  have tr: "\<bar>t - r\<bar> \<le> u * r"
    using round_double_near[of r] r by (simp add: t r_def[symmetric] u_def)
  have qt: "q * t = of_nat ih * r"
    using tpos pos by (simp add: q_def r_def)
  have qpos: "0 < q" using tpos pos by (simp add: q_def)
  have shq: "\<bar>sh - q\<bar> \<le> u * q"
    using round_double_near[of q] qpos by (simp add: sh q_def[symmetric] u_def)
  from crop_error[OF u r ihp tr qt shq]
  have b: "\<bar>sh - of_nat ih\<bar> \<le> 4 * u * of_nat ih" by simp
  have u4: "4 * u * of_nat ih = (of_nat ih :: rat) / 2 ^ 51"
    by (simp add: u_def)
  from b u4 show 1: "\<bar>sh - of_nat ih\<bar> \<le> of_nat ih / 2 ^ 51" by simp
  have "\<bar>sy\<bar> \<le> 2 * \<bar>js_sub (of_nat ih) sh / 2\<bar>"
    unfolding sy by (rule round_double_abs_le)
  also have "\<dots> = \<bar>round_double (of_nat ih - sh)\<bar>"
    by (simp add: js_sub_def)
  finally have sy1: "\<bar>sy\<bar> \<le> \<bar>round_double (of_nat ih - sh)\<bar>" .
  show "\<bar>sy\<bar> \<le> of_nat ih / 2 ^ 51"
  proof (cases "of_nat ih - sh = 0")
    case True
    with sy1 have "\<bar>sy\<bar> \<le> 0" by (simp add: round_double_def)
    with ihp show ?thesis by (simp add: field_simps) 
  next
    case False
    from round_double_near[OF False]
    have "\<bar>round_double (of_nat ih - sh)\<bar> \<le> \<bar>of_nat ih - sh\<bar> + \<bar>of_nat ih - sh\<bar> / 2 ^ 53"
      by linarith
    moreover from crop_error(2)[OF u r ihp tr qt shq] crop_error(3)[OF u r ihp tr qt shq]
    have "\<bar>of_nat ih - sh\<bar> \<le> 2 * u * q" "(1 - u) * q \<le> of_nat ih" by simp_all
    ultimately have "\<bar>round_double (of_nat ih - sh)\<bar> \<le> of_nat ih / 2 ^ 51"
      unfolding u_def by (simp add: field_simps)
    with sy1 show ?thesis by linarith
  qed
qed

section \<open>The three counters\<close>

text \<open>
  Claim C10. Every turn of the loop over the records raises exactly one of
  \<open>successCount\<close>, \<open>skipCount\<close> and \<open>failCount\<close> by one and leaves the other two as
  they were; so when the body of the run ends normally, the three counters add up to
  the number of records, and the last thing it has done is to set the status line to
  the three counts.
\<close>

theorem counters_sum_to_total:
  "(\<exists>oc. outcome_between s (process_record h src tgt W H n i r s) = Some oc)
   \<and> (run_body h a s0 = (Inr x, s') \<longrightarrow>
        (\<exists>ids. getRecordIdList h = Inr ids
           \<and> successCount s' + skipCount s' + failCount s' = length ids
           \<and> last (trace s') = SetStatusMsg (Status_Done (successCount s') (skipCount s') (failCount s'))))"
proof (intro conjI impI)
  show "\<exists>oc. outcome_between s (process_record h src tgt W H n i r s) = Some oc"
    using process_record_outcome_some[of s h src tgt W H n i r] by auto
next
  assume run: "run_body h a s0 = (Inr x, s')"
  then obtain u ids v w where ok: "getActiveTable h = Inr u" "getRecordIdList h = Inr ids" "ids \<noteq> []"
    "getField h (selectedSourceFieldId a) = Inr v" "getField h (selectedTargetFieldId a) = Inr w"
    using run_body_Inr by blast
  define s5 where "s5 = records_loop h (selectedSourceFieldId a) (selectedTargetFieldId a) (targetWidth a)
                (targetHeight a) (length ids) 0 ids (loop_start a (length ids) s0)"
  have s': "s' = emit (SetStatusMsg (Status_Done (successCount s5) (skipCount s5) (failCount s5))) s5"
    using run run_body_reaches_loop[OF ok, of s0] by (simp add: Let_def s5_def)
  have "successCount s5 + skipCount s5 + failCount s5 = length ids"
    unfolding s5_def by (simp add: records_loop_counts loop_start_def)
  then show "\<exists>ids. getRecordIdList h = Inr ids
           \<and> successCount s' + skipCount s' + failCount s' = length ids
           \<and> last (trace s') = SetStatusMsg (Status_Done (successCount s') (skipCount s') (failCount s'))"
    using ok(2) by (simp add: s')
qed

theorem counters_sum_to_total_witness:
  "successCount (snd (run_body example_host example_app start_state))
     + skipCount (snd (run_body example_host example_app start_state))
     + failCount (snd (run_body example_host example_app start_state)) = 3"
proof -
  have "fst (run_body example_host example_app start_state) = Inr ()"
    by code_simp
  then have run: "run_body example_host example_app start_state
      = (Inr (), snd (run_body example_host example_app start_state))"
    by (simp add: prod_eq_iff)
  have ids: "getRecordIdList example_host = Inr [''r1'', ''r2'', ''r3'']"
    by (simp add: example_host_def)
  from counters_sum_to_total[where h = example_host and a = example_app and ?s0.0 = start_state
      and x = "()" and s' = "snd (run_body example_host example_app start_state)"] run ids
  show ?thesis by auto
qed

section \<open>The outcome of a record\<close>

text \<open>
  Claim C4. For every record: a cell that holds no attachment list or an empty one
  makes the record skipped (the skip count goes up by one, the two other counts stay),
  and nothing is written. When the attachments have produced at least one file, the
  whole list of files is written to the destination field in one call; an
  acknowledgment that is true makes the record a success, one that is false makes it
  failed, and the last line of the log is then the one that says the write was
  refused. When they have produced no file, the record is skipped and nothing is
  written.
\<close>

theorem record_outcome_classification:
  "(getValue h src r = Inr None \<or> getValue h src r = Inr (Some []) \<longrightarrow>
      outcome_between s0 (process_record h src tgt W H n i r s0) = Some outcome_skipped
      \<and> last (trace (process_record h src tgt W H n i r s0)) = AddLog (Log_NoAttachment (i + 1)) info
      \<and> files_submitted (trace (process_record h src tgt W H n i r s0)) = files_submitted (trace s0))
   \<and> (getValue h src r = Inr (Some al) \<and> al \<noteq> []
        \<and> getCellAttachmentUrls h (map token al) src r = Inr urls \<longrightarrow>
      (produced_files h W H urls 0 al \<noteq> [] \<longrightarrow>
         files_submitted (trace (process_record h src tgt W H n i r s0))
           = files_submitted (trace s0) @ [(tgt, r, produced_files h W H urls 0 al)]
         \<and> (setValue h tgt r (produced_files h W H urls 0 al) = Inr True \<longrightarrow>
              outcome_between s0 (process_record h src tgt W H n i r s0) = Some outcome_success)
         \<and> (setValue h tgt r (produced_files h W H urls 0 al) = Inr False \<longrightarrow>
              outcome_between s0 (process_record h src tgt W H n i r s0) = Some outcome_failed
              \<and> last (trace (process_record h src tgt W H n i r s0))
                  = AddLog (Log_SetFailed (i + 1)) error))
      \<and> (produced_files h W H urls 0 al = [] \<longrightarrow>
           outcome_between s0 (process_record h src tgt W H n i r s0) = Some outcome_skipped
           \<and> last (trace (process_record h src tgt W H n i r s0))
               = AddLog (Log_NoValidImage (i + 1)) info
           \<and> files_submitted (trace (process_record h src tgt W H n i r s0))
               = files_submitted (trace s0)))"
proof (intro conjI impI)
  assume e: "getValue h src r = Inr None \<or> getValue h src r = Inr (Some [])"
  note pr = process_record_empty[OF e, of tgt W H n i s0]
  show "outcome_between s0 (process_record h src tgt W H n i r s0) = Some outcome_skipped"
    by (simp add: pr outcome_between_def)
  show "last (trace (process_record h src tgt W H n i r s0)) = AddLog (Log_NoAttachment (i + 1)) info"
    by (simp add: pr)
  show "files_submitted (trace (process_record h src tgt W H n i r s0)) = files_submitted (trace s0)"
    by (simp add: pr)
next
  assume a: "getValue h src r = Inr (Some al) \<and> al \<noteq> []
        \<and> getCellAttachmentUrls h (map token al) src r = Inr urls"
  then obtain s4 where pr: "process_record h src tgt W H n i r s0 =
            submit h tgt i r (s4, produced_files h W H urls 0 al)"
    and c: "successCount s4 = successCount s0" "skipCount s4 = skipCount s0"
      "failCount s4 = failCount s0"
    and f: "files_submitted (trace s4) = files_submitted (trace s0)"
    using process_record_files[of h src r al urls tgt W H n i s0] by blast
  have ob: "outcome_between s0 s' = outcome_between s4 s'" for s'
    by (rule outcome_between_shift) (simp_all add: c)
  have so: "outcome_between s4 (submit h tgt i r (s4, fs)) =
     (if fs = [] then Some outcome_skipped
      else case setValue h tgt r fs of
             Inl e \<Rightarrow> Some outcome_failed
           | Inr res \<Rightarrow> if res then Some outcome_success else Some outcome_failed)" for fs
    using submit_outcome[of "(s4, fs)" h tgt i r] by simp
  {
    assume ne: "produced_files h W H urls 0 al \<noteq> []"
    show "files_submitted (trace (process_record h src tgt W H n i r s0))
           = files_submitted (trace s0) @ [(tgt, r, produced_files h W H urls 0 al)]"
      using ne by (simp add: pr submit_files f)
    {
      assume "setValue h tgt r (produced_files h W H urls 0 al) = Inr True"
      then show "outcome_between s0 (process_record h src tgt W H n i r s0) = Some outcome_success"
        using ne by (simp add: pr ob so)
    }
    {
      assume "setValue h tgt r (produced_files h W H urls 0 al) = Inr False"
      then show "outcome_between s0 (process_record h src tgt W H n i r s0) = Some outcome_failed"
        "last (trace (process_record h src tgt W H n i r s0)) = AddLog (Log_SetFailed (i + 1)) error"
        using ne by (simp_all add: pr ob so submit_last)
    }
  }
  {
    assume em: "produced_files h W H urls 0 al = []"
    then show "outcome_between s0 (process_record h src tgt W H n i r s0) = Some outcome_skipped"
      "last (trace (process_record h src tgt W H n i r s0)) = AddLog (Log_NoValidImage (i + 1)) info"
      "files_submitted (trace (process_record h src tgt W H n i r s0)) = files_submitted (trace s0)"
      by (simp_all add: pr ob so submit_last submit_files f)
  }
qed

theorem record_outcome_classification_witness:
  "outcome_between start_state
      (process_record example_host ''src'' ''dst'' 100 100 3 0 ''r1'' start_state) = Some outcome_success
   \<and> outcome_between start_state
      (process_record rejecting_host ''src'' ''dst'' 100 100 3 0 ''r1'' start_state) = Some outcome_failed
   \<and> last (trace (process_record rejecting_host ''src'' ''dst'' 100 100 3 0 ''r1'' start_state))
        = AddLog (Log_SetFailed 1) error
   \<and> outcome_between start_state
      (process_record example_host ''src'' ''dst'' 100 100 3 1 ''r2'' start_state) = Some outcome_skipped"
proof -
  let ?al = "[\<lparr>name = ''a.jpg'', token = ''t1''\<rparr>]"
  have ne: "produced_files example_host 100 100 [''u/t1''] 0 ?al \<noteq> []"
    by code_simp
  have ne': "produced_files rejecting_host 100 100 [''u/t1''] 0 ?al \<noteq> []"
    by code_simp
  have 1: "outcome_between start_state
      (process_record example_host ''src'' ''dst'' 100 100 3 0 ''r1'' start_state) = Some outcome_success"
    using record_outcome_classification[of example_host "''src''" "''r1''" start_state "''dst''" 100 100 3 0
        ?al "[''u/t1'']"] ne
    by (simp add: example_host_def)
  have 2: "outcome_between start_state
      (process_record rejecting_host ''src'' ''dst'' 100 100 3 0 ''r1'' start_state) = Some outcome_failed
   \<and> last (trace (process_record rejecting_host ''src'' ''dst'' 100 100 3 0 ''r1'' start_state))
        = AddLog (Log_SetFailed 1) error"
    using record_outcome_classification[of rejecting_host "''src''" "''r1''" start_state "''dst''" 100 100 3 0
        ?al "[''u/t1'']"] ne'
    by (simp add: example_host_def rejecting_host_def)
  have 3: "outcome_between start_state
      (process_record example_host ''src'' ''dst'' 100 100 3 1 ''r2'' start_state) = Some outcome_skipped"
    using record_outcome_classification[of example_host "''src''" "''r2''" start_state "''dst''" 100 100 3 1]
    by (simp add: example_host_def)
  from 1 2 3 show ?thesis by simp
qed

section \<open>A failure of one attachment\<close>

text \<open>
  Claim C5. A download answered other than 2xx is a download error with the status
  text. For every attachment that is an image, a failure of its download or of its
  transform is caught inside the loop over the attachments: it adds no file, it changes
  no counter, and the line it logs carries the name of the attachment as the host gave
  it. The loop goes on: the files of a record are what each attachment adds by itself,
  in order. Such a failure never makes a record failed: when the reads of the record
  succeed, the record is failed only if files were produced and the write was not
  acknowledged with true. With two images of which exactly one download fails, the
  other one gives the one file that is written, and the record is a success when the
  write is acknowledged.
\<close>

theorem attachment_failure_isolated:
  "(fetch h u = Inr resp \<and> \<not> ok resp \<longrightarrow> download h u = Inl (DownloadError (statusText resp)))
   \<and> (isImage (fileName_of a)
        \<and> (download h u = Inl e
            \<or> (download h u = Inr b \<and> processImageWithPixel (browser_of h) b W H = Inl e)) \<longrightarrow>
        snd (process_attachment h W H a u (s, fs)) = fs
        \<and> last (trace (fst (process_attachment h W H a u (s, fs))))
            = AddLog (Log_AttachmentFailed (name a) e) error
        \<and> successCount (fst (process_attachment h W H a u (s, fs))) = successCount s
        \<and> skipCount (fst (process_attachment h W H a u (s, fs))) = skipCount s
        \<and> failCount (fst (process_attachment h W H a u (s, fs))) = failCount s)
   \<and> snd (attachments_loop h W H urls j as (s, fs)) = fs @ produced_files h W H urls j as
   \<and> (getValue h src r = Inr (Some al) \<and> al \<noteq> []
        \<and> getCellAttachmentUrls h (map token al) src r = Inr urls
        \<and> outcome_between s0 (process_record h src tgt W H n i r s0) = Some outcome_failed \<longrightarrow>
        produced_files h W H urls 0 al \<noteq> []
        \<and> setValue h tgt r (produced_files h W H urls 0 al) \<noteq> Inr True)
   \<and> (getValue h src r = Inr (Some [a1, a2])
        \<and> getCellAttachmentUrls h [token a1, token a2] src r = Inr urls
        \<and> isImage (fileName_of a1) \<and> isImage (fileName_of a2)
        \<and> download h (url_at urls 0) = Inl e
        \<and> download h (url_at urls 1) = Inr b
        \<and> processImageWithPixel (browser_of h) b W H = Inr b'
        \<and> setValue h tgt r [File [b'] (newFileName (fileName_of a2) W H) ''image/jpeg''] = Inr True \<longrightarrow>
        files_submitted (trace (process_record h src tgt W H n i r s0))
          = files_submitted (trace s0)
              @ [(tgt, r, [File [b'] (newFileName (fileName_of a2) W H) ''image/jpeg''])]
        \<and> outcome_between s0 (process_record h src tgt W H n i r s0) = Some outcome_success)
   \<and> (getValue h src r = Inr (Some [a1, a2])
        \<and> getCellAttachmentUrls h [token a1, token a2] src r = Inr urls
        \<and> isImage (fileName_of a1) \<and> isImage (fileName_of a2)
        \<and> download h (url_at urls 0) = Inr b
        \<and> processImageWithPixel (browser_of h) b W H = Inr b'
        \<and> download h (url_at urls 1) = Inl e
        \<and> setValue h tgt r [File [b'] (newFileName (fileName_of a1) W H) ''image/jpeg''] = Inr True \<longrightarrow>
        files_submitted (trace (process_record h src tgt W H n i r s0))
          = files_submitted (trace s0)
              @ [(tgt, r, [File [b'] (newFileName (fileName_of a1) W H) ''image/jpeg''])]
        \<and> outcome_between s0 (process_record h src tgt W H n i r s0) = Some outcome_success)"
proof (intro conjI impI)
  assume "fetch h u = Inr resp \<and> \<not> ok resp"
  then show "download h u = Inl (DownloadError (statusText resp))"
    by (simp add: download_not_ok)
next
  assume a: "isImage (fileName_of a)
        \<and> (download h u = Inl e
            \<or> (download h u = Inr b \<and> processImageWithPixel (browser_of h) b W H = Inl e))"
  then show "snd (process_attachment h W H a u (s, fs)) = fs"
    "last (trace (fst (process_attachment h W H a u (s, fs))))
            = AddLog (Log_AttachmentFailed (name a) e) error"
    using process_attachment_failure[of a h u e b W H s fs] by blast+
  show "successCount (fst (process_attachment h W H a u (s, fs))) = successCount s"
    "skipCount (fst (process_attachment h W H a u (s, fs))) = skipCount s"
    "failCount (fst (process_attachment h W H a u (s, fs))) = failCount s"
    by (simp_all add: process_attachment_counts)
next
  show "snd (attachments_loop h W H urls j as (s, fs)) = fs @ produced_files h W H urls j as"
    by (simp add: attachments_loop_files)
next
  assume "getValue h src r = Inr (Some al) \<and> al \<noteq> []
        \<and> getCellAttachmentUrls h (map token al) src r = Inr urls
        \<and> outcome_between s0 (process_record h src tgt W H n i r s0) = Some outcome_failed"
  then have "produced_files h W H urls 0 al \<noteq> []
       \<and> setValue h tgt r (produced_files h W H urls 0 al) \<noteq> Inr True"
    using process_record_failed_only_by_submit[of h src r al urls s0 tgt W H n i] by blast
  then show "produced_files h W H urls 0 al \<noteq> []"
    "setValue h tgt r (produced_files h W H urls 0 al) \<noteq> Inr True"
    by blast+
next
  assume a: "getValue h src r = Inr (Some [a1, a2])
        \<and> getCellAttachmentUrls h [token a1, token a2] src r = Inr urls
        \<and> isImage (fileName_of a1) \<and> isImage (fileName_of a2)
        \<and> download h (url_at urls 0) = Inl e
        \<and> download h (url_at urls 1) = Inr b
        \<and> processImageWithPixel (browser_of h) b W H = Inr b'
        \<and> setValue h tgt r [File [b'] (newFileName (fileName_of a2) W H) ''image/jpeg''] = Inr True"
  then have pf: "produced_files h W H urls 0 [a1, a2]
      = [File [b'] (newFileName (fileName_of a2) W H) ''image/jpeg'']"
    by (simp add: produced_def)
  show "files_submitted (trace (process_record h src tgt W H n i r s0))
          = files_submitted (trace s0)
              @ [(tgt, r, [File [b'] (newFileName (fileName_of a2) W H) ''image/jpeg''])]"
    "outcome_between s0 (process_record h src tgt W H n i r s0) = Some outcome_success"
    using process_record_success[where h = h and src = src and r = r and al = "[a1, a2]" and urls = urls
        and W = W and H = H and tgt = tgt and ?s0.0 = s0 and n = n and i = i, OF _ _ _ pf] a
    by simp_all
next
  assume a: "getValue h src r = Inr (Some [a1, a2])
        \<and> getCellAttachmentUrls h [token a1, token a2] src r = Inr urls
        \<and> isImage (fileName_of a1) \<and> isImage (fileName_of a2)
        \<and> download h (url_at urls 0) = Inr b
        \<and> processImageWithPixel (browser_of h) b W H = Inr b'
        \<and> download h (url_at urls 1) = Inl e
        \<and> setValue h tgt r [File [b'] (newFileName (fileName_of a1) W H) ''image/jpeg''] = Inr True"
  then have pf: "produced_files h W H urls 0 [a1, a2]
      = [File [b'] (newFileName (fileName_of a1) W H) ''image/jpeg'']"
    by (simp add: produced_def)
  show "files_submitted (trace (process_record h src tgt W H n i r s0))
          = files_submitted (trace s0)
              @ [(tgt, r, [File [b'] (newFileName (fileName_of a1) W H) ''image/jpeg''])]"
    "outcome_between s0 (process_record h src tgt W H n i r s0) = Some outcome_success"
    using process_record_success[where h = h and src = src and r = r and al = "[a1, a2]" and urls = urls
        and W = W and H = H and tgt = tgt and ?s0.0 = s0 and n = n and i = i, OF _ _ _ pf] a
    by simp_all
qed

theorem attachment_failure_isolated_witness:
  "\<exists>b'. files_submitted (trace (process_record two_image_host ''src'' ''dst'' 100 100 1 0 ''r1'' start_state))
          = [(''dst'', ''r1'', [File [b'] (Some ''b_100x100.jpg'') ''image/jpeg''])]
        \<and> outcome_between start_state
            (process_record two_image_host ''src'' ''dst'' 100 100 1 0 ''r1'' start_state)
          = Some outcome_success"
proof -
  let ?a1 = "\<lparr>name = ''a.jpg'', token = ''t1''\<rparr>"
  let ?a2 = "\<lparr>name = ''b.png'', token = ''t2''\<rparr>"
  let ?urls = "[''u/t1'', ''u/t2'']"
  obtain b' where b': "processImageWithPixel (browser_of two_image_host) (Bytes [1]) 100 100 = Inr b'"
    by (simp add: processImageWithPixel_def two_image_host_def example_host_def example_browser_def Let_def)
  have img: "isImage (fileName_of ?a1)" "isImage (fileName_of ?a2)"
    by code_simp+
  have nm: "newFileName (fileName_of ?a2) 100 100 = Some ''b_100x100.jpg''"
    by code_simp
  have d1: "download two_image_host (url_at ?urls 0) = Inl (DownloadError ''Not Found'')"
    by (simp add: download_def url_at_def two_image_host_def example_host_def)
  have d2: "download two_image_host (url_at ?urls 1) = Inr (Bytes [1])"
    by (simp add: download_def url_at_def two_image_host_def example_host_def)
  have gv: "getValue two_image_host ''src'' ''r1'' = Inr (Some [?a1, ?a2])"
    "getCellAttachmentUrls two_image_host [token ?a1, token ?a2] ''src'' ''r1'' = Inr ?urls"
    "setValue two_image_host ''dst'' ''r1'' [File [b'] (newFileName (fileName_of ?a2) 100 100) ''image/jpeg''] = Inr True"
    by (simp_all add: two_image_host_def example_host_def)
  have "files_submitted (trace (process_record two_image_host ''src'' ''dst'' 100 100 1 0 ''r1'' start_state))
          = files_submitted (trace start_state)
              @ [(''dst'', ''r1'', [File [b'] (newFileName (fileName_of ?a2) 100 100) ''image/jpeg''])]
        \<and> outcome_between start_state
            (process_record two_image_host ''src'' ''dst'' 100 100 1 0 ''r1'' start_state)
          = Some outcome_success"
    using attachment_failure_isolated[where h = two_image_host and src = "''src''" and r = "''r1''"
        and ?a1.0 = ?a1 and ?a2.0 = ?a2 and urls = ?urls and e = "DownloadError ''Not Found''"
        and b = "Bytes [1]" and b' = b' and W = 100 and H = 100 and tgt = "''dst''"
        and ?s0.0 = start_state and n = 1 and i = 0]
      img d1 d2 b' gv
    by blast
  then show ?thesis
    by (auto simp add: nm start_state_def)
qed

section \<open>What stops a record and what stops the batch\<close>

text \<open>
  Claim C6 says that the only errors fatal to the batch are the two checks made before
  the loop: both fields selected, and a record set that is not empty. The run below has
  both fields selected and three records; the host refuses \<open>getField\<close>, and the run
  ends with the status line of a failure and without a record read.
\<close>

theorem fatal_host_call_counterexample:
  "selectedSourceFieldId example_app \<noteq> [] \<and> selectedTargetFieldId example_app \<noteq> []
   \<and> getRecordIdList stale_field_host = Inr [''r1'', ''r2'', ''r3'']
   \<and> records_read (trace (handleConvert stale_field_host example_app)) = []
   \<and> status_updates (trace (handleConvert stale_field_host example_app))
        = [Status_Initializing, Status_Failed (HostError ''field not found'')]"
  by code_simp

text \<open>
  Claim C6, amended. An exception thrown while a record is processed is caught at the
  boundary of the record, whichever call throws it: the read of the source field, the
  call for the addresses of the attachments, or the write to the destination field
  (what an attachment throws is caught before, inside the loop over the attachments).
  The record is failed and the last line of the log carries the message of the
  exception. The loop goes on
  with the next record: it reads every record it was given, in order. The errors fatal
  to the batch are those that arise before the loop begins: a field that is not
  selected, a record set that is empty, and a failure of \<open>getActiveTable\<close>,
  \<open>getRecordIdList\<close> or \<open>getField\<close>. Each of them ends the run with no record
  read, no transform and no write; without any of them every record is read and the
  status line ends on the three counts.
\<close>

theorem record_faults_do_not_stop_the_batch:
  "(getValue h src r = Inl e \<longrightarrow>
      outcome_between s (process_record h src tgt W H n i r s) = Some outcome_failed
      \<and> last (trace (process_record h src tgt W H n i r s)) = AddLog (Log_RowFailed (i + 1) e) error)
   \<and> (getValue h src r = Inr (Some al) \<and> al \<noteq> []
        \<and> getCellAttachmentUrls h (map token al) src r = Inl e \<longrightarrow>
      outcome_between s (process_record h src tgt W H n i r s) = Some outcome_failed
      \<and> last (trace (process_record h src tgt W H n i r s)) = AddLog (Log_RowFailed (i + 1) e) error)
   \<and> (getValue h src r = Inr (Some al) \<and> al \<noteq> []
        \<and> getCellAttachmentUrls h (map token al) src r = Inr urls
        \<and> produced_files h W H urls 0 al \<noteq> []
        \<and> setValue h tgt r (produced_files h W H urls 0 al) = Inl e \<longrightarrow>
      outcome_between s (process_record h src tgt W H n i r s) = Some outcome_failed
      \<and> last (trace (process_record h src tgt W H n i r s)) = AddLog (Log_RowFailed (i + 1) e) error)
   \<and> records_read (trace (records_loop h src tgt W H n i ids s)) = records_read (trace s) @ ids
   \<and> (selectedSourceFieldId a \<noteq> [] \<and> selectedTargetFieldId a \<noteq> []
        \<and> getActiveTable h = Inr u \<and> getRecordIdList h = Inr ids \<and> ids \<noteq> []
        \<and> getField h (selectedSourceFieldId a) = Inr v
        \<and> getField h (selectedTargetFieldId a) = Inr w \<longrightarrow>
        records_read (trace (handleConvert h a)) = ids
        \<and> (\<exists>sc kc fc. status_updates (trace (handleConvert h a))
              = [Status_Initializing, Status_Done sc kc fc]))
   \<and> (selectedSourceFieldId a = [] \<or> selectedTargetFieldId a = []
        \<or> (\<exists>e. getActiveTable h = Inl e) \<or> (\<exists>e. getRecordIdList h = Inl e)
        \<or> getRecordIdList h = Inr []
        \<or> (\<exists>e. getField h (selectedSourceFieldId a) = Inl e)
        \<or> (\<exists>e. getField h (selectedTargetFieldId a) = Inl e) \<longrightarrow>
        records_read (trace (handleConvert h a)) = []
        \<and> transform_calls (trace (handleConvert h a)) = []
        \<and> files_submitted (trace (handleConvert h a)) = [])"
proof (intro conjI impI)
  assume "getValue h src r = Inl e"
  then show "outcome_between s (process_record h src tgt W H n i r s) = Some outcome_failed"
    "last (trace (process_record h src tgt W H n i r s)) = AddLog (Log_RowFailed (i + 1) e) error"
    by (simp_all add: process_record_thrown)
next
  assume "getValue h src r = Inr (Some al) \<and> al \<noteq> []
        \<and> getCellAttachmentUrls h (map token al) src r = Inl e"
  then show "outcome_between s (process_record h src tgt W H n i r s) = Some outcome_failed"
    "last (trace (process_record h src tgt W H n i r s)) = AddLog (Log_RowFailed (i + 1) e) error"
    using process_record_urls_thrown[where h = h and src = src and r = r and al = al and e = e
        and s = s and tgt = tgt and W = W and H = H and n = n and i = i] by blast+
next
  assume "getValue h src r = Inr (Some al) \<and> al \<noteq> []
        \<and> getCellAttachmentUrls h (map token al) src r = Inr urls
        \<and> produced_files h W H urls 0 al \<noteq> []
        \<and> setValue h tgt r (produced_files h W H urls 0 al) = Inl e"
  then show "outcome_between s (process_record h src tgt W H n i r s) = Some outcome_failed"
    "last (trace (process_record h src tgt W H n i r s)) = AddLog (Log_RowFailed (i + 1) e) error"
    using process_record_write_thrown[where h = h and src = src and r = r and al = al and urls = urls
        and e = e and s = s and tgt = tgt and W = W and H = H and n = n and i = i] by blast+
next
  show "records_read (trace (records_loop h src tgt W H n i ids s)) = records_read (trace s) @ ids"
    by (rule records_loop_read)
next
  assume a: "selectedSourceFieldId a \<noteq> [] \<and> selectedTargetFieldId a \<noteq> []
        \<and> getActiveTable h = Inr u \<and> getRecordIdList h = Inr ids \<and> ids \<noteq> []
        \<and> getField h (selectedSourceFieldId a) = Inr v
        \<and> getField h (selectedTargetFieldId a) = Inr w"
  then obtain s5 where s5: "s5 = records_loop h (selectedSourceFieldId a) (selectedTargetFieldId a)
                (targetWidth a) (targetHeight a) (length ids) 0 ids (loop_start a (length ids) run_start)"
    and tr: "trace (handleConvert h a) = trace s5 @
          [SetStatusMsg (Status_Done (successCount s5) (skipCount s5) (failCount s5)),
           SetIsConverting False, SetProgress 0 0]"
    using handleConvert_loop[of a h u ids v w] by blast
  show "records_read (trace (handleConvert h a)) = ids"
    by (simp add: tr s5 records_loop_read)
  have "status_updates (trace (handleConvert h a))
         = [Status_Initializing, Status_Done (successCount s5) (skipCount s5) (failCount s5)]"
    by (simp add: tr) (simp add: s5 records_loop_status)
  then show "\<exists>sc kc fc. status_updates (trace (handleConvert h a))
              = [Status_Initializing, Status_Done sc kc fc]"
    by blast
next
  assume b: "selectedSourceFieldId a = [] \<or> selectedTargetFieldId a = []
        \<or> (\<exists>e. getActiveTable h = Inl e) \<or> (\<exists>e. getRecordIdList h = Inl e)
        \<or> getRecordIdList h = Inr []
        \<or> (\<exists>e. getField h (selectedSourceFieldId a) = Inl e)
        \<or> (\<exists>e. getField h (selectedTargetFieldId a) = Inl e)"
  show "records_read (trace (handleConvert h a)) = []"
    "transform_calls (trace (handleConvert h a)) = []"
    "files_submitted (trace (handleConvert h a)) = []"
  proof -
    have "records_read (trace (handleConvert h a)) = []
        \<and> transform_calls (trace (handleConvert h a)) = []
        \<and> files_submitted (trace (handleConvert h a)) = []"
    proof (cases "selectedSourceFieldId a = [] \<or> selectedTargetFieldId a = []")
      case True
      then show ?thesis by (simp add: handleConvert_unselected)
    next
      case False
      with b have "\<not> (\<exists>u ids v w. getActiveTable h = Inr u \<and> getRecordIdList h = Inr ids \<and> ids \<noteq> [] \<and>
        getField h (selectedSourceFieldId a) = Inr v \<and> getField h (selectedTargetFieldId a) = Inr w)"
        by auto
      with False show ?thesis
        using handleConvert_abort(1-3)[of a h] by simp
    qed
    then show "records_read (trace (handleConvert h a)) = []"
      "transform_calls (trace (handleConvert h a)) = []"
      "files_submitted (trace (handleConvert h a)) = []"
      by blast+
  qed
qed

theorem record_faults_do_not_stop_the_batch_witness:
  "outcome_between start_state
      (process_record example_host ''src'' ''dst'' 100 100 3 2 ''r3'' start_state) = Some outcome_failed
   \<and> last (trace (process_record example_host ''src'' ''dst'' 100 100 3 2 ''r3'' start_state))
        = AddLog (Log_RowFailed 3 (HostError ''boom'')) error
   \<and> last (trace (process_record urls_failing_host ''src'' ''dst'' 100 100 3 0 ''r1'' start_state))
        = AddLog (Log_RowFailed 1 (HostError ''no urls'')) error
   \<and> outcome_between start_state
      (process_record write_failing_host ''src'' ''dst'' 100 100 3 0 ''r1'' start_state)
        = Some outcome_failed
   \<and> last (trace (process_record write_failing_host ''src'' ''dst'' 100 100 3 0 ''r1'' start_state))
        = AddLog (Log_RowFailed 1 (HostError ''denied'')) error
   \<and> records_read (trace (handleConvert example_host example_app)) = [''r1'', ''r2'', ''r3'']
   \<and> records_read (trace (handleConvert stale_field_host example_app)) = []"
proof -
  let ?al = "[\<lparr>name = ''a.jpg'', token = ''t1''\<rparr>]"
  have sel: "selectedSourceFieldId example_app = ''src''" "selectedTargetFieldId example_app = ''dst''"
    by (simp_all add: example_app_def app_of_events_def initial_app_def)
  have 1: "outcome_between start_state
      (process_record example_host ''src'' ''dst'' 100 100 3 2 ''r3'' start_state) = Some outcome_failed
   \<and> last (trace (process_record example_host ''src'' ''dst'' 100 100 3 2 ''r3'' start_state))
        = AddLog (Log_RowFailed 3 (HostError ''boom'')) error"
    using record_faults_do_not_stop_the_batch[where h = example_host and src = "''src''" and r = "''r3''"
        and e = "HostError ''boom''" and s = start_state and tgt = "''dst''" and W = 100 and H = 100
        and n = 3 and i = 2]
    by (simp add: example_host_def)
  have 2: "last (trace (process_record urls_failing_host ''src'' ''dst'' 100 100 3 0 ''r1'' start_state))
        = AddLog (Log_RowFailed 1 (HostError ''no urls'')) error"
    using record_faults_do_not_stop_the_batch[where h = urls_failing_host and src = "''src''"
        and r = "''r1''" and al = ?al and e = "HostError ''no urls''" and s = start_state
        and tgt = "''dst''" and W = 100 and H = 100 and n = 3 and i = 0]
    by (simp add: urls_failing_host_def example_host_def)
  have ne: "produced_files write_failing_host 100 100 [''u/t1''] 0 ?al \<noteq> []"
    by code_simp
  have 3: "outcome_between start_state
      (process_record write_failing_host ''src'' ''dst'' 100 100 3 0 ''r1'' start_state)
        = Some outcome_failed
   \<and> last (trace (process_record write_failing_host ''src'' ''dst'' 100 100 3 0 ''r1'' start_state))
        = AddLog (Log_RowFailed 1 (HostError ''denied'')) error"
    using record_faults_do_not_stop_the_batch[where h = write_failing_host and src = "''src''"
        and r = "''r1''" and al = ?al and urls = "[''u/t1'']" and e = "HostError ''denied''"
        and s = start_state and tgt = "''dst''" and W = 100 and H = 100 and n = 3 and i = 0] ne
    by (simp add: write_failing_host_def example_host_def)
  have 4: "records_read (trace (handleConvert example_host example_app)) = [''r1'', ''r2'', ''r3'']"
    using record_faults_do_not_stop_the_batch[where h = example_host and a = example_app
        and ids = "[''r1'', ''r2'', ''r3'']" and u = "()" and v = "()" and w = "()"]
    by (simp add: example_host_def sel)
  have 5: "records_read (trace (handleConvert stale_field_host example_app)) = []"
    using record_faults_do_not_stop_the_batch[where h = stale_field_host and a = example_app]
    by (simp add: example_host_def stale_field_host_def sel)
  from 1 2 3 4 5 show ?thesis by simp
qed

section \<open>The progress of the run\<close>

text \<open>
  Claim C9 says that the progress goes up by one after each record completes. The run
  of the three records begins as follows: the progress is set to 1 of 3 before the
  first record is read, so it counts the records begun.
\<close>

theorem progress_before_record_counterexample:
  "take 10 (trace (handleConvert example_host example_app))
     = [SetIsConverting True, SetStatusMsg Status_Initializing, SetLogs_empty,
        Call_getActiveTable, Call_getRecordIdList, SetProgress 0 3,
        Call_getField ''src'', Call_getField ''dst'',
        SetProgress 1 3, Call_getValue ''src'' ''r1'']"
  by code_simp

text \<open>
  Claim C9, amended. In a run that reaches the loop over \<open>n\<close> records the progress is
  set to \<open>(0, n)\<close> before the loop, to \<open>(i + 1, n)\<close> at the start of the turn of record
  \<open>i\<close>, before that record is read and nowhere else in the turn, and to \<open>(0, 0)\<close> at
  the end; so the current value goes up by one for each record, never exceeds the
  total, and the status line ends on the three counts. In every run each value set
  has its current part at most its total. Every run that starts, whether it ends
  normally or on a fatal error, leaves the progress at \<open>(0, 0)\<close>; a click with a field
  unselected leaves it as it was.
\<close>

theorem progress_through_the_run:
  "(selectedSourceFieldId a \<noteq> [] \<and> selectedTargetFieldId a \<noteq> []
      \<and> getActiveTable h = Inr u \<and> getRecordIdList h = Inr ids \<and> ids \<noteq> []
      \<and> getField h (selectedSourceFieldId a) = Inr v
      \<and> getField h (selectedTargetFieldId a) = Inr w \<longrightarrow>
      progress_updates (trace (handleConvert h a))
        = (0, length ids) # map (\<lambda>k. (k + 1, length ids)) [0 ..< length ids] @ [(0, 0)]
      \<and> (\<exists>sc kc fc. status_updates (trace (handleConvert h a))
            = [Status_Initializing, Status_Done sc kc fc]))
   \<and> (\<exists>rest. trace (process_record h src tgt W H n i r s)
          = trace s @ SetProgress (i + 1) n # Call_getValue src r # rest
        \<and> progress_updates rest = [])
   \<and> list_all (\<lambda>p. fst p \<le> snd p) (progress_updates (trace (handleConvert h a)))
   \<and> (selectedSourceFieldId a \<noteq> [] \<and> selectedTargetFieldId a \<noteq> [] \<longrightarrow>
        progress (app_after a (trace (handleConvert h a))) = (0, 0))
   \<and> (selectedSourceFieldId a = [] \<or> selectedTargetFieldId a = [] \<longrightarrow>
        progress (app_after a (trace (handleConvert h a))) = progress a)"
proof (intro conjI impI)
  assume a: "selectedSourceFieldId a \<noteq> [] \<and> selectedTargetFieldId a \<noteq> []
      \<and> getActiveTable h = Inr u \<and> getRecordIdList h = Inr ids \<and> ids \<noteq> []
      \<and> getField h (selectedSourceFieldId a) = Inr v
      \<and> getField h (selectedTargetFieldId a) = Inr w"
  then obtain s5 where s5: "s5 = records_loop h (selectedSourceFieldId a) (selectedTargetFieldId a)
                (targetWidth a) (targetHeight a) (length ids) 0 ids (loop_start a (length ids) run_start)"
    and tr: "trace (handleConvert h a) = trace s5 @
          [SetStatusMsg (Status_Done (successCount s5) (skipCount s5) (failCount s5)),
           SetIsConverting False, SetProgress 0 0]"
    using handleConvert_loop[of a h u ids v w] by blast
  show "progress_updates (trace (handleConvert h a))
        = (0, length ids) # map (\<lambda>k. (k + 1, length ids)) [0 ..< length ids] @ [(0, 0)]"
    by (simp add: tr) (simp add: s5 records_loop_progress)
  have "status_updates (trace (handleConvert h a))
         = [Status_Initializing, Status_Done (successCount s5) (skipCount s5) (failCount s5)]"
    by (simp add: tr) (simp add: s5 records_loop_status)
  then show "\<exists>sc kc fc. status_updates (trace (handleConvert h a))
              = [Status_Initializing, Status_Done sc kc fc]"
    by blast
next
  show "\<exists>rest. trace (process_record h src tgt W H n i r s)
          = trace s @ SetProgress (i + 1) n # Call_getValue src r # rest
        \<and> progress_updates rest = []"
    by (rule process_record_begins)
next
  show "list_all (\<lambda>p. fst p \<le> snd p) (progress_updates (trace (handleConvert h a)))"
  proof (cases "selectedSourceFieldId a = [] \<or> selectedTargetFieldId a = []")
    case True
    then show ?thesis by (simp add: handleConvert_unselected)
  next
    case sel: False
    show ?thesis
    proof (cases "\<exists>u ids v w. getActiveTable h = Inr u \<and> getRecordIdList h = Inr ids \<and> ids \<noteq> [] \<and>
        getField h (selectedSourceFieldId a) = Inr v \<and> getField h (selectedTargetFieldId a) = Inr w")
      case True
      then obtain u ids v w where ok: "getActiveTable h = Inr u" "getRecordIdList h = Inr ids" "ids \<noteq> []"
        "getField h (selectedSourceFieldId a) = Inr v" "getField h (selectedTargetFieldId a) = Inr w"
        by blast
      obtain s5 where s5: "s5 = records_loop h (selectedSourceFieldId a) (selectedTargetFieldId a)
                (targetWidth a) (targetHeight a) (length ids) 0 ids (loop_start a (length ids) run_start)"
        and tr: "trace (handleConvert h a) = trace s5 @
          [SetStatusMsg (Status_Done (successCount s5) (skipCount s5) (failCount s5)),
           SetIsConverting False, SetProgress 0 0]"
        using handleConvert_loop[of a h u ids v w] sel ok by blast
      have "progress_updates (trace (handleConvert h a))
        = (0, length ids) # map (\<lambda>k. (k + 1, length ids)) [0 ..< length ids] @ [(0, 0)]"
        by (simp add: tr) (simp add: s5 records_loop_progress)
      then show ?thesis
        by (simp add: list_all_iff)
    next
      case False
      have "progress_updates (trace s) = [] \<or> (\<exists>n. progress_updates (trace s) = [(0, n)])"
        if "run_body h a run_start = (Inl e, s)" for e s
        using that False
        by (auto simp add: run_body_def Let_def split: sum.splits if_splits)
      moreover obtain e s where "run_body h a run_start = (Inl e, s)"
        using run_body_aborts[OF False, of run_start] by blast
      ultimately show ?thesis
        using sel by (auto simp add: handleConvert_selected run_failed_def)
    qed
  qed
next
  assume "selectedSourceFieldId a \<noteq> [] \<and> selectedTargetFieldId a \<noteq> []"
  then obtain es where "trace (handleConvert h a) = es @ [SetProgress 0 0]"
    using handleConvert_ends_reset[of a h] by blast
  then show "progress (app_after a (trace (handleConvert h a))) = (0, 0)"
    by (simp add: app_after_def)
next
  assume "selectedSourceFieldId a = [] \<or> selectedTargetFieldId a = []"
  then show "progress (app_after a (trace (handleConvert h a))) = progress a"
    by (simp add: handleConvert_unselected app_after_def)
qed

theorem progress_through_the_run_witness:
  "progress_updates (trace (handleConvert example_host example_app))
     = [(0, 3), (1, 3), (2, 3), (3, 3), (0, 0)]
   \<and> progress (app_after example_app (trace (handleConvert example_host example_app))) = (0, 0)
   \<and> progress (app_after initial_app (trace (handleConvert example_host initial_app))) = (0, 0)"
proof -
  have sel: "selectedSourceFieldId example_app = ''src''" "selectedTargetFieldId example_app = ''dst''"
    by (simp_all add: example_app_def app_of_events_def initial_app_def)
  have up: "[0 ..< 3] = [0, 1, 2::nat]"
    by (simp add: upt_rec)
  note t = progress_through_the_run[where h = example_host and a = example_app
        and ids = "[''r1'', ''r2'', ''r3'']" and u = "()" and v = "()" and w = "()"]
  have 1: "progress_updates (trace (handleConvert example_host example_app))
     = [(0, 3), (1, 3), (2, 3), (3, 3), (0, 0)]"
    using t by (simp add: example_host_def sel up)
  have 2: "progress (app_after example_app (trace (handleConvert example_host example_app))) = (0, 0)"
    using t by (simp add: sel)
  have 3: "progress (app_after initial_app (trace (handleConvert example_host initial_app))) = (0, 0)"
    using progress_through_the_run[where h = example_host and a = initial_app]
    by (simp add: initial_app_def)
  from 1 2 3 show ?thesis by simp
qed

section \<open>The target dimensions that reach the transform\<close>

text \<open>
  Claim C8 says that the code that processes the records rejects a zero or negative
  target dimension before the transform is called. With \<open>-5\<close> typed as the width, the
  run of the three records calls the transform with a width of \<open>-5\<close>.
\<close>

theorem negative_width_counterexample:
  "transform_calls (trace (handleConvert example_host
      (app_of_events [SelectSourceField ''src'', SelectTargetField ''dst'',
                      ChangeTargetWidth (Some (- 5))])))
   = [(- 5, 800)]"
  by code_simp

text \<open>
  Claim C8, amended. The code that processes the records does not check the target
  dimensions: every call of the transform receives the width and the height that the
  state of the component holds. The handlers of the two inputs store 1 in place of an
  entry that is zero or not a number, so whatever the user has done before, in every
  run that reaches a call of the transform the width and the height are not zero.
\<close>

theorem target_dimensions_as_entered:
  "\<forall>p \<in> set (transform_calls (trace (handleConvert h (app_of_events evs)))).
      p = (targetWidth (app_of_events evs), targetHeight (app_of_events evs))
      \<and> fst p \<noteq> 0 \<and> snd p \<noteq> 0"
  using handleConvert_transform_calls[of h "app_of_events evs"] app_of_events_nonzero[of evs]
  by auto

theorem target_dimensions_as_entered_witness:
  "transform_calls (trace (handleConvert example_host
      (app_of_events [SelectSourceField ''src'', SelectTargetField ''dst'',
                      ChangeTargetWidth (Some 0), ChangeTargetHeight None])))
   = [(1, 1)]"
proof -
  let ?evs = "[SelectSourceField ''src'', SelectTargetField ''dst'',
                      ChangeTargetWidth (Some 0), ChangeTargetHeight None]"
  have len: "length (transform_calls (trace (handleConvert example_host (app_of_events ?evs)))) = 1"
    by code_simp
  then obtain p where p: "transform_calls (trace (handleConvert example_host (app_of_events ?evs))) = [p]"
    by (cases "transform_calls (trace (handleConvert example_host (app_of_events ?evs)))") auto
  have tw: "targetWidth (app_of_events ?evs) = 1" "targetHeight (app_of_events ?evs) = 1"
    by (simp_all add: app_of_events_def initial_app_def Number_or_1_def)
  from target_dimensions_as_entered[of example_host ?evs] p tw
  have "p = (1, 1)" by simp
  with p show ?thesis by simp
qed

section \<open>The name and the type of the output file\<close>

text \<open>
  Claim C3 says that for every source file name the base name of the output is the
  original name cut at its last dot. An attachment without a name gives a file named
  \<open>image_100x100.jpg\<close>, where the name it came with would give \<open>_100x100.jpg\<close>: line
  183 has put \<open>image.jpg\<close> in its place.
\<close>

theorem nameless_file_name_counterexample:
  "map file_name
       (snd (process_attachment nameless_host 100 100 \<lparr>name = [], token = ''t1''\<rparr> ''u/t1''
               (start_state, [])))
     = [Some ''image_100x100.jpg'']
   \<and> newFileName (name \<lparr>name = [], token = ''t1''\<rparr>) 100 100 = Some ''_100x100.jpg''"
  by code_simp

text \<open>
  Claim C3, amended. For every file name and every target \<open>(W, H)\<close> of integers of
  magnitude below \<open>2^53\<close> the name of the output file is the base name, an underscore,
  \<open>W\<close> in decimal, the letter x, \<open>H\<close> in decimal and \<open>.jpg\<close>; the decimal digits read back
  as the number. A name without a dot is its own base name; a name with a dot is its
  base name, a dot and an extension without a dot, so the base name is the name cut at
  its last dot. Whatever file an attachment that has a name adds to its record has the
  name made from the name of the attachment, and the type \<open>image/jpeg\<close>; for an
  attachment without a name it is the name made from \<open>image.jpg\<close>. The name is a
  function of the file name, \<open>W\<close> and \<open>H\<close> alone.
\<close>

theorem output_file_name:
  "(\<bar>W\<bar> < 2 ^ 53 \<and> \<bar>H\<bar> < 2 ^ 53 \<longrightarrow>
      newFileName fileName W H
        = Some (baseName fileName @ ''_'' @ decimal W @ ''x'' @ decimal H @ ''.jpg''))
   \<and> (0 \<le> W \<longrightarrow> decimal_value (decimal W) = nat W)
   \<and> (CHR ''.'' \<notin> set fileName \<longrightarrow> baseName fileName = fileName)
   \<and> (CHR ''.'' \<in> set fileName \<longrightarrow>
        (\<exists>ext. fileName = baseName fileName @ CHR ''.'' # ext \<and> CHR ''.'' \<notin> set ext))
   \<and> (name a \<noteq> [] \<longrightarrow>
        (snd (process_attachment h W H a u (s, fs)) = fs
         \<or> (\<exists>b. snd (process_attachment h W H a u (s, fs))
                  = fs @ [File [b] (newFileName (name a) W H) ''image/jpeg''])))
   \<and> (name a = [] \<longrightarrow>
        (snd (process_attachment h W H a u (s, fs)) = fs
         \<or> (\<exists>b. snd (process_attachment h W H a u (s, fs))
                  = fs @ [File [b] (newFileName ''image.jpg'' W H) ''image/jpeg''])))"
proof (intro conjI impI)
  assume "\<bar>W\<bar> < 2 ^ 53 \<and> \<bar>H\<bar> < 2 ^ 53"
  then show "newFileName fileName W H
        = Some (baseName fileName @ ''_'' @ decimal W @ ''x'' @ decimal H @ ''.jpg'')"
    by (simp add: newFileName_def numberToString_def)
next
  assume "0 \<le> W"
  then show "decimal_value (decimal W) = nat W"
    by (simp add: decimal_def decimal_value_digits)
next
  assume "CHR ''.'' \<notin> set fileName"
  then show "baseName fileName = fileName"
    by (rule baseName_no_dot)
next
  assume "CHR ''.'' \<in> set fileName"
  then show "\<exists>ext. fileName = baseName fileName @ CHR ''.'' # ext \<and> CHR ''.'' \<notin> set ext"
    by (rule baseName_dot)
next
  assume "name a \<noteq> []"
  then have "fileName_of a = name a" by (simp add: fileName_of_def)
  with process_attachment_file[of h W H a u s fs]
  show "snd (process_attachment h W H a u (s, fs)) = fs
         \<or> (\<exists>b. snd (process_attachment h W H a u (s, fs))
                  = fs @ [File [b] (newFileName (name a) W H) ''image/jpeg''])"
    by simp
next
  assume "name a = []"
  then have "fileName_of a = ''image.jpg''" by (simp add: fileName_of_def)
  with process_attachment_file[of h W H a u s fs]
  show "snd (process_attachment h W H a u (s, fs)) = fs
         \<or> (\<exists>b. snd (process_attachment h W H a u (s, fs))
                  = fs @ [File [b] (newFileName ''image.jpg'' W H) ''image/jpeg''])"
    by simp
qed

theorem output_file_name_witness:
  "newFileName ''photo.final.PNG'' 800 600 = Some ''photo.final_800x600.jpg''
   \<and> (\<exists>ext. ''photo.final.PNG'' = ''photo.final'' @ CHR ''.'' # ext \<and> CHR ''.'' \<notin> set ext)
   \<and> newFileName ''README'' 1024 1 = Some ''README_1024x1.jpg''
   \<and> decimal_value ''1024'' = 1024"
proof -
  have d: "CHR ''.'' \<in> set ''photo.final.PNG''" "CHR ''.'' \<notin> set ''README''"
    by simp_all
  have b: "baseName ''photo.final.PNG'' = ''photo.final''"
    by code_simp
  have ns: "decimal 800 = ''800''" "decimal 600 = ''600''"
    "decimal 1024 = ''1024''" "decimal 1 = ''1''"
    by code_simp+
  have 1: "newFileName ''photo.final.PNG'' 800 600 = Some ''photo.final_800x600.jpg''
     \<and> (\<exists>ext. ''photo.final.PNG'' = ''photo.final'' @ CHR ''.'' # ext \<and> CHR ''.'' \<notin> set ext)"
    using output_file_name[of 800 600 "''photo.final.PNG''"] d(1)
    by (simp only: b ns) simp
  have 2: "newFileName ''README'' 1024 1 = Some ''README_1024x1.jpg''
     \<and> decimal_value ''1024'' = 1024"
    using output_file_name[of 1024 1 "''README''"] d(2)
    by (simp add: ns)
  from 1 2 show ?thesis by blast
qed

section \<open>Which attachments are images\<close>

text \<open>
  Claim C7 says that an attachment is an image exactly when its file name ends with
  one of the six extensions. An attachment that has no name ends with none of them,
  and line 183 has it processed under the name \<open>image.jpg\<close>: the run of a record
  whose only attachment has no name calls the transform.
\<close>

theorem nameless_attachment_counterexample:
  "\<not> spec_is_image (name \<lparr>name = [], token = ''t1''\<rparr>)
   \<and> isImage (fileName_of \<lparr>name = [], token = ''t1''\<rparr>)
   \<and> getValue nameless_host ''src'' ''r1'' = Inr (Some [\<lparr>name = [], token = ''t1''\<rparr>])
   \<and> transform_calls (trace (handleConvert nameless_host example_app)) = [(100, 100)]"
  by code_simp

text \<open>
  Claim C7, amended. For every attachment that has a name, it is an image exactly when
  what follows the last dot of its name is one of jpg, jpeg, png, webp, gif and bmp,
  letters compared without their case. An attachment with an empty name is processed
  under the name \<open>image.jpg\<close>, so it is an image. An attachment that is not an image
  adds one line to the log and nothing else: no download, no transform, no file, no
  counter; and attachments of which none is an image produce no file.
\<close>

theorem image_classification:
  "(name a \<noteq> [] \<longrightarrow> (isImage (fileName_of a) \<longleftrightarrow> spec_is_image (name a)))
   \<and> (name a = [] \<longrightarrow> fileName_of a = ''image.jpg'' \<and> isImage (fileName_of a))
   \<and> (\<not> isImage (fileName_of a) \<longrightarrow>
        process_attachment h W H a u (s, fs)
          = (addLog (Log_SkipNonImage (fileName_of a)) info s, fs))
   \<and> ((\<forall>a \<in> set as. \<not> isImage (fileName_of a)) \<longrightarrow> produced_files h W H urls j as = [])"
proof (intro conjI impI)
  assume "name a \<noteq> []"
  then show "isImage (fileName_of a) \<longleftrightarrow> spec_is_image (name a)"
    by (simp add: fileName_of_def isImage_iff_spec)
next
  assume e: "name a = []"
  then show "fileName_of a = ''image.jpg''"
    by (simp add: fileName_of_def)
  have "isImage ''image.jpg''"
    by code_simp
  with e show "isImage (fileName_of a)"
    by (simp add: fileName_of_def)
next
  assume "\<not> isImage (fileName_of a)"
  then show "process_attachment h W H a u (s, fs)
          = (addLog (Log_SkipNonImage (fileName_of a)) info s, fs)"
    by (rule process_attachment_not_image)
next
  assume "\<forall>a \<in> set as. \<not> isImage (fileName_of a)"
  then show "produced_files h W H urls j as = []"
    by (rule produced_files_no_image)
qed

theorem image_classification_witness:
  "isImage ''photo.final.PNG'' \<and> \<not> isImage ''doc.pdf''
   \<and> process_attachment example_host 100 100 \<lparr>name = ''doc.pdf'', token = ''t''\<rparr> ''u/t'' (start_state, [])
        = (addLog (Log_SkipNonImage ''doc.pdf'') info start_state, [])
   \<and> produced_files example_host 100 100 [''u/t''] 0 [\<lparr>name = ''doc.pdf'', token = ''t''\<rparr>] = []"
proof -
  let ?png = "\<lparr>name = ''photo.final.PNG'', token = ''t''\<rparr>"
  let ?pdf = "\<lparr>name = ''doc.pdf'', token = ''t''\<rparr>"
  have s: "spec_is_image ''photo.final.PNG''" "\<not> spec_is_image ''doc.pdf''"
    by code_simp+
  have 1: "isImage ''photo.final.PNG''"
    using image_classification[where a = ?png] s(1) by (simp add: fileName_of_def)
  have 2: "\<not> isImage ''doc.pdf''"
    using image_classification[where a = ?pdf] s(2) by (simp add: fileName_of_def)
  have f: "fileName_of ?pdf = ''doc.pdf''" by (simp add: fileName_of_def)
  have 3: "process_attachment example_host 100 100 ?pdf ''u/t'' (start_state, [])
        = (addLog (Log_SkipNonImage ''doc.pdf'') info start_state, [])"
    using image_classification[where a = ?pdf and h = example_host and W = 100 and H = 100
        and u = "''u/t''" and s = start_state and fs = "[]"] 2
    by (simp add: f)
  have 4: "produced_files example_host 100 100 [''u/t''] 0 [?pdf] = []"
    using image_classification[where a = ?pdf and as = "[?pdf]" and h = example_host and W = 100
        and H = 100 and urls = "[''u/t'']" and j = 0] 2
    by (simp add: f)
  from 1 2 3 4 show ?thesis by simp
qed

section \<open>What the transform gives back\<close>

text \<open>
  Claim C2 says that for every target width and height above zero the output has
  exactly those dimensions. The height of a canvas is an unsigned long: a target of 3
  by 4294967297 makes a canvas of 3 by 1, and that is what is encoded.
\<close>

theorem canvas_height_wraps_counterexample:
  "processImageWithPixel example_browser (Bytes []) 3 4294967297
     = Inr (CanvasBlob
              \<lparr>width = 3, height = 1, fillStyle = ''#FFFFFF'',
               painted = [FillRect ''#FFFFFF'' 0 0 3 4294967297,
                          DrawImage \<lparr>naturalWidth = 200, naturalHeight = 100\<rparr>
                            (sourceRect 200 100 3 4294967297) 0 0 3 4294967297]\<rparr>
              ''image/jpeg'' (round_double (9 / 10)))"
  by (simp add: processImageWithPixel_def example_browser_def Let_def set_width_def set_height_def
      unsigned_long_attribute_def fillRect_def drawImage_def createElement_canvas_def)

text \<open>
  Claim C2, amended. For a target width and height above zero and at most
  \<open>2147483647\<close>, and an input that decodes, the transform gives a blob whenever the
  browser gives a 2d context and \<open>toBlob\<close> gives a blob; and whatever blob it gives is
  the canvas of exactly the target width and height, on which the first thing painted
  is a rectangle of opaque white over the whole canvas and the second is the image,
  encoded as \<open>image/jpeg\<close> at the quality that the literal \<open>0.9\<close> stands for, whatever
  the size of the input.
\<close>

theorem transform_output:
  "0 < tw \<and> tw \<le> 2147483647 \<and> 0 < th \<and> th \<le> 2147483647 \<and> decode br blob = Some img \<longrightarrow>
     (getContext br \<and> (\<forall>c. \<not> toBlob_null br c) \<longrightarrow>
        (\<exists>out. processImageWithPixel br blob tw th = Inr out))
     \<and> (\<forall>out. processImageWithPixel br blob tw th = Inr out \<longrightarrow>
          (\<exists>c. out = CanvasBlob c ''image/jpeg'' (round_double (9 / 10))
             \<and> width c = tw \<and> height c = th
             \<and> painted c = [FillRect ''#FFFFFF'' 0 0 (of_int tw) (of_int th),
                             DrawImage img (sourceRect (naturalWidth img) (naturalHeight img) tw th)
                               0 0 (of_int tw) (of_int th)]))"
proof (intro impI conjI allI)
  assume a: "0 < tw \<and> tw \<le> 2147483647 \<and> 0 < th \<and> th \<le> 2147483647 \<and> decode br blob = Some img"
  {
    assume "getContext br \<and> (\<forall>c. \<not> toBlob_null br c)"
    with a show "\<exists>out. processImageWithPixel br blob tw th = Inr out"
      using processImageWithPixel_returns[of br blob img tw th] by blast
  }
  {
    fix out
    assume "processImageWithPixel br blob tw th = Inr out"
    from processImageWithPixel_Inr[OF this] a
    show "\<exists>c. out = CanvasBlob c ''image/jpeg'' (round_double (9 / 10))
             \<and> width c = tw \<and> height c = th
             \<and> painted c = [FillRect ''#FFFFFF'' 0 0 (of_int tw) (of_int th),
                             DrawImage img (sourceRect (naturalWidth img) (naturalHeight img) tw th)
                               0 0 (of_int tw) (of_int th)]"
      by (auto simp add: unsigned_long_attribute_id)
  }
qed

theorem transform_output_witness:
  "\<exists>c. processImageWithPixel example_browser (Bytes []) 100 100
          = Inr (CanvasBlob c ''image/jpeg'' (round_double (9 / 10)))
      \<and> width c = 100 \<and> height c = 100
      \<and> hd (painted c) = FillRect ''#FFFFFF'' 0 0 100 100"
proof -
  let ?img = "\<lparr>naturalWidth = 200, naturalHeight = 100\<rparr>"
  have d: "decode example_browser (Bytes []) = Some ?img" "getContext example_browser"
    "\<forall>c. \<not> toBlob_null example_browser c"
    by (simp_all add: example_browser_def)
  note t = transform_output[of 100 100 example_browser "Bytes []" ?img]
  from t d obtain out where out: "processImageWithPixel example_browser (Bytes []) 100 100 = Inr out"
    by auto
  with t d obtain c where "out = CanvasBlob c ''image/jpeg'' (round_double (9 / 10))"
    "width c = 100" "height c = 100"
    "painted c = [FillRect ''#FFFFFF'' 0 0 (of_int 100) (of_int 100),
                  DrawImage ?img (sourceRect (naturalWidth ?img) (naturalHeight ?img) 100 100)
                    0 0 (of_int 100) (of_int 100)]"
    by auto
  with out show ?thesis by simp
qed

section \<open>The rectangle cut from the source\<close>

text \<open>
  Claim C1 says that an input whose ratio equals the ratio of the target is scaled with
  zero cropping. An image of 1000 by 930 pixels with a target of 1000 by 930 has the
  very ratio of the target; the quotient \<open>1000 / 930\<close> is rounded, \<open>1000\<close> divided by
  it is rounded to \<open>930 + 2^-43\<close>, and the rectangle starts at \<open>-2^-44\<close>, above the
  image, and is higher than the image.
\<close>

theorem equal_ratio_counterexample:
  "sourceRect 1000 930 1000 930
     = Some \<lparr>sourceX = 0, sourceY = - (1 / 2 ^ 44), sourceWidth = 1000,
              sourceHeight = 930 + 1 / 2 ^ 43\<rparr>"
proof -
  have t: "js_div 1000 930 = Some (1210645061121101 / 2 ^ 50)"
    by code_simp
  have sh: "js_div 1000 (1210645061121101 / 2 ^ 50) = Some (930 + 1 / 2 ^ 43)"
    by code_simp
  have sy: "js_div (js_sub 930 (930 + 1 / 2 ^ 43)) 2 = Some (- (1 / 2 ^ 44))"
    by code_simp
  show ?thesis
    by (simp only: sourceRect_def of_nat_numeral of_int_numeral t sh sy bind.bind_lunit Let_def)
      simp
qed

text \<open>
  Claim C1, amended. For an image and a target whose four sizes are integers, not zero,
  of magnitude below \<open>2^53\<close>, the image sizes above zero, the transform computes the
  rectangle by the formulas of the claim, every operation rounded as the language
  rounds it. When the ratio of the image is greater than the ratio of the target, the
  height of the rectangle is the height of the image, its width is that height times
  the ratio of the target, it starts at half the width left over and at the top.
  Otherwise, equal ratios included, its width is the width of the image, its height is
  that width divided by the ratio of the target, it starts at the left and at half the
  height left over. With equal ratios nothing is cut left or right, and what is cut
  above and below is zero up to rounding: the height of the rectangle and the height
  of the image differ by at most the height of the image divided by \<open>2^51\<close>, and so
  does the start of the rectangle from zero.
\<close>

theorem crop_rectangle:
  "0 < iw \<and> 0 < ih \<and> tw \<noteq> 0 \<and> th \<noteq> 0
     \<and> iw < 2 ^ 53 \<and> ih < 2 ^ 53 \<and> \<bar>tw\<bar> < 2 ^ 53 \<and> \<bar>th\<bar> < 2 ^ 53 \<longrightarrow>
   (\<exists>targetRatio currentRatio.
      js_div (of_int tw) (of_int th) = Some targetRatio
      \<and> js_div (of_nat iw) (of_nat ih) = Some currentRatio
      \<and> (currentRatio > targetRatio \<longrightarrow>
            (\<exists>sx. js_div (js_sub (of_nat iw) (js_mul (of_nat ih) targetRatio)) 2 = Some sx
               \<and> sourceRect iw ih tw th
                   = Some \<lparr>sourceX = sx, sourceY = 0,
                            sourceWidth = js_mul (of_nat ih) targetRatio,
                            sourceHeight = of_nat ih\<rparr>))
      \<and> (\<not> currentRatio > targetRatio \<longrightarrow>
            (\<exists>sh sy. js_div (of_nat iw) targetRatio = Some sh
               \<and> js_div (js_sub (of_nat ih) sh) 2 = Some sy
               \<and> sourceRect iw ih tw th
                   = Some \<lparr>sourceX = 0, sourceY = sy, sourceWidth = of_nat iw,
                            sourceHeight = sh\<rparr>
               \<and> (currentRatio = targetRatio \<longrightarrow>
                     \<bar>sh - of_nat ih\<bar> \<le> of_nat ih / 2 ^ 51 \<and> \<bar>sy\<bar> \<le> of_nat ih / 2 ^ 51))))"
proof
  assume a: "0 < iw \<and> 0 < ih \<and> tw \<noteq> 0 \<and> th \<noteq> 0
     \<and> iw < 2 ^ 53 \<and> ih < 2 ^ 53 \<and> \<bar>tw\<bar> < 2 ^ 53 \<and> \<bar>th\<bar> < 2 ^ 53"
  define t where "t = round_double (of_int tw / of_int th)"
  define c where "c = round_double (of_nat iw / of_nat ih)"
  have t0: "t \<noteq> 0"
    unfolding t_def using a by (intro round_double_nonzero) simp
  have dt: "js_div (of_int tw) (of_int th) = Some t"
    using a by (simp add: js_div_def t_def)
  have dc: "js_div (of_nat iw) (of_nat ih) = Some c"
    using a by (simp add: js_div_def c_def)
  have wide: "c > t \<longrightarrow>
            (\<exists>sx. js_div (js_sub (of_nat iw) (js_mul (of_nat ih) t)) 2 = Some sx
               \<and> sourceRect iw ih tw th
                   = Some \<lparr>sourceX = sx, sourceY = 0, sourceWidth = js_mul (of_nat ih) t,
                            sourceHeight = of_nat ih\<rparr>)"
    by (simp add: sourceRect_def dt dc js_div_Some Let_def)
  define sh where "sh = round_double (of_nat iw / t)"
  define sy where "sy = round_double (js_sub (of_nat ih) sh / 2)"
  have dsh: "js_div (of_nat iw) t = Some sh"
    using t0 by (simp add: js_div_def sh_def)
  have dsy: "js_div (js_sub (of_nat ih) sh) 2 = Some sy"
    by (simp add: js_div_def sy_def)
  have tall: "\<not> c > t \<longrightarrow> sourceRect iw ih tw th
                   = Some \<lparr>sourceX = 0, sourceY = sy, sourceWidth = of_nat iw, sourceHeight = sh\<rparr>"
    by (simp add: sourceRect_def dt dc dsh dsy Let_def)
  have tie: "c = t \<longrightarrow> \<bar>sh - of_nat ih\<bar> \<le> of_nat ih / 2 ^ 51 \<and> \<bar>sy\<bar> \<le> of_nat ih / 2 ^ 51"
  proof
    assume "c = t"
    then have "t = round_double (of_nat iw / of_nat ih)" by (simp add: c_def)
    from tie_bounds[OF _ _ this sh_def sy_def] a
    show "\<bar>sh - of_nat ih\<bar> \<le> of_nat ih / 2 ^ 51 \<and> \<bar>sy\<bar> \<le> of_nat ih / 2 ^ 51"
      by simp
  qed
  from dt dc wide dsh dsy tall tie
  show "\<exists>targetRatio currentRatio.
      js_div (of_int tw) (of_int th) = Some targetRatio
      \<and> js_div (of_nat iw) (of_nat ih) = Some currentRatio
      \<and> (currentRatio > targetRatio \<longrightarrow>
            (\<exists>sx. js_div (js_sub (of_nat iw) (js_mul (of_nat ih) targetRatio)) 2 = Some sx
               \<and> sourceRect iw ih tw th
                   = Some \<lparr>sourceX = sx, sourceY = 0,
                            sourceWidth = js_mul (of_nat ih) targetRatio,
                            sourceHeight = of_nat ih\<rparr>))
      \<and> (\<not> currentRatio > targetRatio \<longrightarrow>
            (\<exists>sh sy. js_div (of_nat iw) targetRatio = Some sh
               \<and> js_div (js_sub (of_nat ih) sh) 2 = Some sy
               \<and> sourceRect iw ih tw th
                   = Some \<lparr>sourceX = 0, sourceY = sy, sourceWidth = of_nat iw,
                            sourceHeight = sh\<rparr>
               \<and> (currentRatio = targetRatio \<longrightarrow>
                     \<bar>sh - of_nat ih\<bar> \<le> of_nat ih / 2 ^ 51 \<and> \<bar>sy\<bar> \<le> of_nat ih / 2 ^ 51)))"
    by blast
qed

theorem crop_rectangle_witness:
  "sourceRect 200 100 100 100
     = Some \<lparr>sourceX = 50, sourceY = 0, sourceWidth = 100, sourceHeight = 100\<rparr>
   \<and> (\<exists>sh sy. sourceRect 1000 930 1000 930
         = Some \<lparr>sourceX = 0, sourceY = sy, sourceWidth = 1000, sourceHeight = sh\<rparr>
       \<and> \<bar>sh - 930\<bar> \<le> 930 / 2 ^ 51 \<and> \<bar>sy\<bar> \<le> 930 / 2 ^ 51)"
proof -
  have e1: "js_div 100 100 = Some 1" "js_div 200 100 = Some 2"
    "js_mul 100 1 = 100" "js_div (js_sub 200 100) 2 = Some 50"
    by code_simp+
  have h1: "0 < (200::nat) \<and> 0 < (100::nat) \<and> (100::int) \<noteq> 0 \<and> (100::int) \<noteq> 0
     \<and> (200::nat) < 2 ^ 53 \<and> (100::nat) < 2 ^ 53 \<and> \<bar>100::int\<bar> < 2 ^ 53 \<and> \<bar>100::int\<bar> < 2 ^ 53"
    by simp
  from crop_rectangle[of 200 100 100 100, rule_format, OF h1]
  obtain t c where tc: "js_div (of_int 100) (of_int 100) = Some t"
      "js_div (of_nat 200) (of_nat 100) = Some c"
    and wide: "c > t \<longrightarrow>
            (\<exists>sx. js_div (js_sub (of_nat 200) (js_mul (of_nat 100) t)) 2 = Some sx
               \<and> sourceRect 200 100 100 100
                   = Some \<lparr>sourceX = sx, sourceY = 0, sourceWidth = js_mul (of_nat 100) t,
                            sourceHeight = of_nat 100\<rparr>)"
    by blast
  from tc have t: "t = 1" "c = 2" by (simp_all add: e1)
  with wide have 1: "sourceRect 200 100 100 100
     = Some \<lparr>sourceX = 50, sourceY = 0, sourceWidth = 100, sourceHeight = 100\<rparr>"
    by (simp add: e1)
  have h2: "0 < (1000::nat) \<and> 0 < (930::nat) \<and> (1000::int) \<noteq> 0 \<and> (930::int) \<noteq> 0
     \<and> (1000::nat) < 2 ^ 53 \<and> (930::nat) < 2 ^ 53 \<and> \<bar>1000::int\<bar> < 2 ^ 53 \<and> \<bar>930::int\<bar> < 2 ^ 53"
    by simp
  from crop_rectangle[of 1000 930 1000 930, rule_format, OF h2]
  obtain t' c' where tc': "js_div (of_int 1000) (of_int 930) = Some t'"
      "js_div (of_nat 1000) (of_nat 930) = Some c'"
    and tall: "\<not> c' > t' \<longrightarrow>
            (\<exists>sh sy. js_div (of_nat 1000) t' = Some sh
               \<and> js_div (js_sub (of_nat 930) sh) 2 = Some sy
               \<and> sourceRect 1000 930 1000 930
                   = Some \<lparr>sourceX = 0, sourceY = sy, sourceWidth = of_nat 1000,
                            sourceHeight = sh\<rparr>
               \<and> (c' = t' \<longrightarrow>
                     \<bar>sh - of_nat 930\<bar> \<le> of_nat 930 / 2 ^ 51 \<and> \<bar>sy\<bar> \<le> of_nat 930 / 2 ^ 51))"
    by blast
  from tc' have eq: "c' = t'" by simp
  with tall obtain sh sy where "sourceRect 1000 930 1000 930
                   = Some \<lparr>sourceX = 0, sourceY = sy, sourceWidth = of_nat 1000, sourceHeight = sh\<rparr>"
    "\<bar>sh - of_nat 930\<bar> \<le> of_nat 930 / 2 ^ 51" "\<bar>sy\<bar> \<le> of_nat 930 / 2 ^ 51"
    by blast
  then have 2: "\<exists>sh sy. sourceRect 1000 930 1000 930
         = Some \<lparr>sourceX = 0, sourceY = sy, sourceWidth = 1000, sourceHeight = sh\<rparr>
       \<and> \<bar>sh - 930\<bar> \<le> 930 / 2 ^ 51 \<and> \<bar>sy\<bar> \<le> 930 / 2 ^ 51"
    by (intro exI[of _ sh] exI[of _ sy]) simp
  from 1 2 show ?thesis by (rule conjI)
qed

end
